theory Spec2Isabelle
  imports Complex_Main "HOL-Library.AList"
begin

section \<open>Values handled by the table writer and reader\<close>

text \<open>
  The module \<^verbatim>\<open>ctapipe/io/hdftableio.py\<close> dispatches on the run-time kind of a field
  value: a Python or numpy scalar (identified by the name of its type), a numpy array
  (identified by the name of its dtype, with a shape), an astropy \<^verbatim>\<open>Quantity\<close> (a scalar
  or array with a unit) and an astropy \<^verbatim>\<open>Time\<close> (held as its \<^verbatim>\<open>mjd\<close>). Floating-point
  numbers are modelled as real numbers: the rounding of floating-point arithmetic is
  outside the model. The conversion of an integer to a 64-bit float is rounded as the
  machine rounds it.
\<close>

datatype num = F real | I int | B bool

fun num_val :: "num \<Rightarrow> real" where
  "num_val (F x) = x"
| "num_val (I n) = of_int n"
| "num_val (B b) = (if b then 1 else 0)"

datatype number =
    Scalar string num
  | NdArray string "nat list" "num list"

datatype pyval =
    Num number
  | Str string
  | NoneVal
  | Quantity number string
  | Time real

text \<open>\<^verbatim>\<open>type(value).__name__\<close>\<close>

fun type_name :: "pyval \<Rightarrow> string" where
  "type_name (Num (Scalar n c)) = n"
| "type_name (Num (NdArray dt sh xs)) = ''ndarray''"
| "type_name (Str s) = ''str''"
| "type_name NoneVal = ''NoneType''"
| "type_name (Quantity p u) = ''Quantity''"
| "type_name (Time m) = ''Time''"

datatype error =
    KeyError string
  | AttributeError
  | TypeError
  | ValueError
  | OverflowError
  | UnitConversionError
  | NoSuchNodeError string
  | NodeError string
  | ClosedNodeError
  | ClosedFileError

type_synonym transform = "pyval \<Rightarrow> error + pyval"

subsection \<open>The type map\<close>

datatype coltype = Float64Col | Float32Col | IntCol | Int32Col | Int64Col | BoolCol

definition PYTABLES_TYPE_MAP :: "(string \<times> coltype) list" where
  "PYTABLES_TYPE_MAP =
    [(''float'', Float64Col),
     (''float64'', Float64Col),
     (''float32'', Float32Col),
     (''int'', IntCol),
     (''int32'', Int32Col),
     (''int64'', Int64Col),
     (''bool'', BoolCol)]"

subsection \<open>Numbers as floats\<close>

text \<open>
  The conversion of an integer to a 64-bit float: to the nearest number of 53 significant
  bits, and to the even one of two that are equally near.
\<close>

fun bit_length :: "nat \<Rightarrow> nat" where
  "bit_length n = (if n = 0 then 0 else Suc (bit_length (n div 2)))"

declare bit_length.simps [simp del]

definition round_nat :: "nat \<Rightarrow> nat \<Rightarrow> nat" where
  "round_nat p a =
    (let e = bit_length a - p; q = a div 2 ^ e; r = a mod 2 ^ e in
     if e = 0 then a
     else if 2 ^ (e - 1) < r \<or> (r = 2 ^ (e - 1) \<and> odd q) then (q + 1) * 2 ^ e
     else q * 2 ^ e)"

definition float64_of_int :: "int \<Rightarrow> real" where
  "float64_of_int n = of_int (sgn n * int (round_nat 53 (nat \<bar>n\<bar>)))"

fun to_float :: "num \<Rightarrow> real" where
  "to_float (F x) = x"
| "to_float (I n) = float64_of_int n"
| "to_float (B b) = (if b then 1 else 0)"

text \<open>
  The type of the numbers of a quantity: astropy keeps 32-bit floats and makes 64-bit
  floats of all other numbers.
\<close>

definition float_name :: "string \<Rightarrow> string" where
  "float_name n = (if n = ''float32'' then ''float32'' else ''float64'')"

subsection \<open>Units and the transform functions\<close>

text \<open>
  What the module takes from outside: astropy's units and the version string of the
  package (\<^verbatim>\<open>ctapipe.__version__\<close>). \<open>astropy_Unit\<close> is \<^verbatim>\<open>Unit(name)\<close> as
  \<^verbatim>\<open>Quantity(value, name)\<close> calls it: for a unit name (a string, or whatever else the
  header holds) the string form of the unit, or the exception raised. \<open>astropy_units\<close>
  gives for the string form of a unit its physical dimension and its scale in that
  dimension.
\<close>

record env =
  astropy_Unit :: "pyval \<Rightarrow> error + string"
  astropy_units :: "string \<Rightarrow> (string \<times> real) option"
  ctapipe_version :: string

text \<open>Multiplication of a quantity's number by a conversion factor.\<close>

fun scale_payload :: "real \<Rightarrow> number \<Rightarrow> number" where
  "scale_payload k (Scalar n c) = Scalar (float_name n) (F (to_float c * k))"
| "scale_payload k (NdArray dt sh xs) =
     NdArray (float_name dt) sh (map (\<lambda>c. F (to_float c * k)) xs)"

text \<open>
  \<^verbatim>\<open>quantity.to(unit)\<close>: the conversion to the unit the quantity has multiplies by one.
\<close>

definition quantity_to :: "env \<Rightarrow> pyval \<Rightarrow> string \<Rightarrow> error + pyval" where
  "quantity_to E quantity unit =
    (case quantity of
       Quantity p u \<Rightarrow>
         (if u = unit then Inr (Quantity (scale_payload 1 p) unit)
          else
            (case (astropy_units E u, astropy_units E unit) of
               (Some (d, s), Some (d', s')) \<Rightarrow>
                 (if d = d' then Inr (Quantity (scale_payload (s / s') p) unit)
                  else Inl UnitConversionError)
             | _ \<Rightarrow> Inl UnitConversionError))
     | _ \<Rightarrow> Inl AttributeError)"

text \<open>\<^verbatim>\<open>x.value\<close>: the number of the quantity, of the type it has there.\<close>

definition quantity_value :: transform where
  "quantity_value x = (case x of Quantity p u \<Rightarrow> Inr (Num p) | _ \<Rightarrow> Inl AttributeError)"

text \<open>\<^verbatim>\<open>str(value.unit)\<close>\<close>

definition quantity_unit :: "pyval \<Rightarrow> string" where
  "quantity_unit x = (case x of Quantity p u \<Rightarrow> u | _ \<Rightarrow> [])"

definition tr_convert_and_strip_unit :: "env \<Rightarrow> pyval \<Rightarrow> string \<Rightarrow> error + pyval" where
  "tr_convert_and_strip_unit E quantity unit =
    (case quantity_to E quantity unit of
       Inl e \<Rightarrow> Inl e
     | Inr q \<Rightarrow> quantity_value q)"

definition tr_time_to_float :: transform where
  "tr_time_to_float thetime =
    (case thetime of
       Time mjd \<Rightarrow> Inr (Num (Scalar ''float64'' (F mjd)))
     | _ \<Rightarrow> Inl AttributeError)"

text \<open>
  \<^verbatim>\<open>Quantity(value, unitname)\<close>: the unit is made of the name first; a number becomes
  a quantity of floats in this unit, a quantity is converted to it. A text is not read as
  a number.
\<close>

definition tr_add_unit :: "env \<Rightarrow> pyval \<Rightarrow> pyval \<Rightarrow> error + pyval" where
  "tr_add_unit E value unitname =
    (case astropy_Unit E unitname of
       Inl e \<Rightarrow> Inl e
     | Inr u \<Rightarrow>
         (case value of
            Num x \<Rightarrow> Inr (Quantity (scale_payload 1 x) u)
          | Quantity p u' \<Rightarrow> quantity_to E value u
          | _ \<Rightarrow> Inl TypeError))"

subsection \<open>Compiled exclusion patterns\<close>

text \<open>
  A compiled pattern of Python's \<^verbatim>\<open>re\<close> module, as its syntax tree. \<^verbatim>\<open>pattern.match(s)\<close>
  succeeds when the pattern matches some prefix of \<^verbatim>\<open>s\<close>; the dot matches every
  character but the newline.
\<close>

datatype regex =
    Never
  | Eps
  | Chr char
  | Dot
  | Seq regex regex
  | Alt regex regex
  | Star regex

fun nullable :: "regex \<Rightarrow> bool" where
  "nullable Never = False"
| "nullable Eps = True"
| "nullable (Chr c) = False"
| "nullable Dot = False"
| "nullable (Seq r s) = (nullable r \<and> nullable s)"
| "nullable (Alt r s) = (nullable r \<or> nullable s)"
| "nullable (Star r) = True"

fun deriv :: "char \<Rightarrow> regex \<Rightarrow> regex" where
  "deriv a Never = Never"
| "deriv a Eps = Never"
| "deriv a (Chr c) = (if a = c then Eps else Never)"
| "deriv a Dot = (if a = CHR 0x0A then Never else Eps)"
| "deriv a (Seq r s) =
     (if nullable r then Alt (Seq (deriv a r) s) (deriv a s) else Seq (deriv a r) s)"
| "deriv a (Alt r s) = Alt (deriv a r) (deriv a s)"
| "deriv a (Star r) = Seq (deriv a r) (Star r)"

fun re_match :: "regex \<Rightarrow> string \<Rightarrow> bool" where
  "re_match r [] = nullable r"
| "re_match r (c # cs) = (nullable r \<or> re_match (deriv c r) cs)"

text \<open>The pattern that matches a given text literally.\<close>

fun literal :: "string \<Rightarrow> regex" where
  "literal [] = Eps"
| "literal (c # cs) = Seq (Chr c) (literal cs)"

subsection \<open>Records\<close>

text \<open>
  Modelled from the spec: \<^verbatim>\<open>ctapipe.core.Container\<close> and \<^verbatim>\<open>Field\<close> are not part of the
  module. The record contract of the specification: an ordered mapping from field name to
  current value, for each field an optional required unit, and a free metadata mapping
  on the instance. Assigning to a name that is not a field of the record is an error.
\<close>

record field =
  f_value :: pyval
  f_unit :: "string option"

record container =
  c_class :: string
  c_fields :: "(string \<times> field) list"
  c_meta :: "(string \<times> pyval) list"

definition container_keys :: "container \<Rightarrow> string list" where
  "container_keys c = map fst (c_fields c)"

definition container_getitem :: "container \<Rightarrow> string \<Rightarrow> error + pyval" where
  "container_getitem c key =
    (case map_of (c_fields c) key of
       None \<Rightarrow> Inl AttributeError
     | Some fld \<Rightarrow> Inr (f_value fld))"

definition container_setitem :: "container \<Rightarrow> string \<Rightarrow> pyval \<Rightarrow> error + container" where
  "container_setitem c key v =
    (case map_of (c_fields c) key of
       None \<Rightarrow> Inl AttributeError
     | Some fld \<Rightarrow> Inr (c\<lparr>c_fields := AList.update key (fld\<lparr>f_value := v\<rparr>) (c_fields c)\<rparr>))"

subsection \<open>The storage engine\<close>

text \<open>
  PyTables, as far as the module uses it: a file holds tables under paths; a table has a
  description (its columns in order, each with a type and a shape), user attributes and
  rows. A value assigned to a cell of a row is converted to the column's type, as numpy
  does on assignment. PyTables lists the columns of a table and its user attributes by
  name; here they are kept in the order in which they were set, which shows only in the
  order of the log messages and of the assignments to different fields of a record.
\<close>

record column =
  col_type :: coltype
  col_shape :: "nat list"

record h5table =
  t_title :: string
  t_description :: "(string \<times> column) list"
  t_attrs :: "(string \<times> pyval) list"
  t_rows :: "(string \<times> pyval) list list"

record h5file =
  f_isopen :: bool
  f_groups :: "string list"
  f_nodes :: "(string \<times> h5table) list"

fun dtype_name :: "coltype \<Rightarrow> string" where
  "dtype_name Float64Col = ''float64''"
| "dtype_name Float32Col = ''float32''"
| "dtype_name IntCol = ''int32''"
| "dtype_name Int32Col = ''int32''"
| "dtype_name Int64Col = ''int64''"
| "dtype_name BoolCol = ''bool''"

definition truncate :: "real \<Rightarrow> int" where
  "truncate x = (if 0 \<le> x then \<lfloor>x\<rfloor> else \<lceil>x\<rceil>)"

definition wrap :: "nat \<Rightarrow> int \<Rightarrow> int" where
  "wrap w n = (n + 2 ^ (w - 1)) mod 2 ^ w - 2 ^ (w - 1)"

fun to_int :: "num \<Rightarrow> int" where
  "to_int (F x) = truncate x"
| "to_int (I n) = n"
| "to_int (B b) = (if b then 1 else 0)"

text \<open>
  The conversion of a number to the type of a column. A Python integer beyond the range
  of a 64-bit integer, or too large for a float, is refused.
\<close>

definition int_cell :: "nat \<Rightarrow> num \<Rightarrow> error + num" where
  "int_cell w c =
    (case c of
       I n \<Rightarrow>
         (if - (2 ^ 63) \<le> n \<and> n < 2 ^ 63 then Inr (I (wrap w n)) else Inl OverflowError)
     | _ \<Rightarrow> Inr (I (wrap w (to_int c))))"

definition float_cell :: "num \<Rightarrow> error + num" where
  "float_cell c =
    (case c of
       I n \<Rightarrow>
         (if \<bar>float64_of_int n\<bar> < 2 ^ 1024 then Inr (F (float64_of_int n))
          else Inl OverflowError)
     | _ \<Rightarrow> Inr (F (to_float c)))"

fun cast :: "coltype \<Rightarrow> num \<Rightarrow> error + num" where
  "cast Float64Col c = float_cell c"
| "cast Float32Col c = float_cell c"
| "cast IntCol c = int_cell 32 c"
| "cast Int32Col c = int_cell 32 c"
| "cast Int64Col c = int_cell 64 c"
| "cast BoolCol c = Inr (B (num_val c \<noteq> 0))"

fun cast_all :: "coltype \<Rightarrow> num list \<Rightarrow> error + num list" where
  "cast_all ct [] = Inr []"
| "cast_all ct (c # cs) =
     (case cast ct c of
        Inl e \<Rightarrow> Inl e
      | Inr x \<Rightarrow>
          (case cast_all ct cs of
             Inl e \<Rightarrow> Inl e
           | Inr xs \<Rightarrow> Inr (x # xs)))"

text \<open>
  Broadcasting, as numpy does it on assignment: the elements (in row-major order) of an
  array of the first shape, repeated along the dimensions of length one to fill the
  second shape. Shapes are aligned at the right; the dimensions that the value has in
  excess must have length one.
\<close>

fun bcast :: "nat list \<Rightarrow> nat list \<Rightarrow> 'a list \<Rightarrow> 'a list option" where
  "bcast [] [] xs = Some xs"
| "bcast (v # vs) (t # ts) xs =
     (if v = t then
        map_option concat
          (those (map (\<lambda>i. bcast vs ts (take (prod_list vs) (drop (i * prod_list vs) xs)))
                    [0..<v]))
      else if v = 1 then map_option (\<lambda>ys. concat (replicate t ys)) (bcast vs ts xs)
      else None)"
| "bcast [] (t # ts) xs = None"
| "bcast (v # vs) [] xs = None"

definition broadcast :: "nat list \<Rightarrow> nat list \<Rightarrow> 'a list \<Rightarrow> 'a list option" where
  "broadcast sh target xs =
    (if sh = target then Some xs
     else if length sh \<le> length target
       then bcast (replicate (length target - length sh) 1 @ sh) target xs
     else if list_all (\<lambda>d. d = 1) (take (length sh - length target) sh)
       then bcast (drop (length sh - length target) sh) target xs
     else None)"

fun shape_of :: "number \<Rightarrow> nat list" where
  "shape_of (Scalar n c) = []"
| "shape_of (NdArray dt sh xs) = sh"

fun elements :: "number \<Rightarrow> num list" where
  "elements (Scalar n c) = [c]"
| "elements (NdArray dt sh xs) = xs"

text \<open>\<^verbatim>\<open>row[colname] = value\<close> for one cell of a column.\<close>

definition set_cell :: "column \<Rightarrow> pyval \<Rightarrow> error + pyval" where
  "set_cell col v =
    (case v of
       Num x \<Rightarrow>
         (case broadcast (shape_of x) (col_shape col) (elements x) of
            None \<Rightarrow> Inl ValueError
          | Some ys \<Rightarrow>
              (case cast_all (col_type col) ys of
                 Inl e \<Rightarrow> Inl e
               | Inr zs \<Rightarrow>
                   (if col_shape col = [] then
                      (case zs of
                         [z] \<Rightarrow> Inr (Num (Scalar (dtype_name (col_type col)) z))
                       | _ \<Rightarrow> Inl ValueError)
                    else Inr (Num (NdArray (dtype_name (col_type col)) (col_shape col) zs)))))
     | _ \<Rightarrow> Inl TypeError)"

text \<open>The cell of a fresh row: zeros.\<close>

fun zero_of :: "coltype \<Rightarrow> num" where
  "zero_of Float64Col = F 0"
| "zero_of Float32Col = F 0"
| "zero_of IntCol = I 0"
| "zero_of Int32Col = I 0"
| "zero_of Int64Col = I 0"
| "zero_of BoolCol = B False"

definition default_cell :: "column \<Rightarrow> pyval" where
  "default_cell col =
    (if col_shape col = []
     then Num (Scalar (dtype_name (col_type col)) (zero_of (col_type col)))
     else Num (NdArray (dtype_name (col_type col)) (col_shape col)
            (replicate (prod_list (col_shape col)) (zero_of (col_type col)))))"

definition table_colnames :: "h5table \<Rightarrow> string list" where
  "table_colnames tab = map fst (t_description tab)"

definition table_row :: "h5table \<Rightarrow> (string \<times> pyval) list" where
  "table_row tab = map (\<lambda>(name, col). (name, default_cell col)) (t_description tab)"

definition row_setitem ::
  "h5table \<Rightarrow> (string \<times> pyval) list \<Rightarrow> string \<Rightarrow> pyval \<Rightarrow> error + (string \<times> pyval) list" where
  "row_setitem tab row colname v =
    (case map_of (t_description tab) colname of
       None \<Rightarrow> Inl (KeyError colname)
     | Some col \<Rightarrow>
         (case set_cell col v of
            Inl e \<Rightarrow> Inl e
          | Inr cell \<Rightarrow> Inr (AList.update colname cell row)))"

definition row_getitem :: "(string \<times> pyval) list \<Rightarrow> string \<Rightarrow> error + pyval" where
  "row_getitem row colname =
    (case map_of row colname of
       None \<Rightarrow> Inl (KeyError colname)
     | Some cell \<Rightarrow> Inr cell)"

definition node_path :: "string \<Rightarrow> string \<Rightarrow> string" where
  "node_path group_name table_name = ''/'' @ group_name @ ''/'' @ table_name"

text \<open>\<^verbatim>\<open>create_table\<close>: a table has at least one column.\<close>

definition create_table ::
  "h5file \<Rightarrow> string \<Rightarrow> string \<Rightarrow> string \<Rightarrow> (string \<times> column) list \<Rightarrow> error + (h5file \<times> string)" where
  "create_table f group_name name title description =
    (if \<not> f_isopen f then Inl ClosedFileError
     else if node_path group_name name \<in> fst ` set (f_nodes f)
       then Inl (NodeError (node_path group_name name))
     else if description = [] then Inl ValueError
     else Inr (f\<lparr>f_nodes := f_nodes f @
                 [(node_path group_name name,
                   \<lparr>t_title = title, t_description = description, t_attrs = [], t_rows = []\<rparr>)]\<rparr>,
               node_path group_name name))"

definition get_node :: "h5file \<Rightarrow> string \<Rightarrow> error + h5table" where
  "get_node f path =
    (if \<not> f_isopen f then Inl ClosedFileError
     else
       (case map_of (f_nodes f) path of
          None \<Rightarrow> Inl (NoSuchNodeError path)
        | Some tab \<Rightarrow> Inr tab))"

definition update_node :: "h5file \<Rightarrow> string \<Rightarrow> (h5table \<Rightarrow> h5table) \<Rightarrow> h5file" where
  "update_node f path g =
    f\<lparr>f_nodes := map (\<lambda>(p, tab). if p = path then (p, g tab) else (p, tab)) (f_nodes f)\<rparr>"

text \<open>\<^verbatim>\<open>File.close()\<close> returns at once when the file is already closed.\<close>

definition file_close :: "h5file \<Rightarrow> h5file" where
  "file_close f = (if \<not> f_isopen f then f else f\<lparr>f_isopen := False\<rparr>)"

text \<open>\<^verbatim>\<open>tab[row_count]\<close>\<close>

datatype 'a indexed = Row 'a | IndexError | Failed error

definition table_getitem :: "h5file \<Rightarrow> h5table \<Rightarrow> nat \<Rightarrow> (string \<times> pyval) list indexed" where
  "table_getitem f tab row_count =
    (if \<not> f_isopen f then Failed ClosedNodeError
     else if row_count < length (t_rows tab) then Row (t_rows tab ! row_count)
     else IndexError)"

section \<open>The table writer\<close>

datatype log_event =
    Initializing string
  | AddedTransform string string
  | ExcludedColumn string string
  | AddedCol string string string
  | ColumnNotInContainer string string string
  | MissingColumn string string string

text \<open>
  The state of an \<^verbatim>\<open>HDF5TableWriter\<close>. The two \<^verbatim>\<open>defaultdict\<close>s are total functions;
  \<^verbatim>\<open>_tables\<close> holds the handle of each table, which is its path in the file. The
  messages sent to \<^verbatim>\<open>self.log\<close> are collected in \<open>w_log\<close>.
\<close>

record writer =
  w_transforms :: "string \<Rightarrow> (string \<times> transform) list"
  w_exclusions :: "string \<Rightarrow> regex list"
  w_schemas :: "string \<Rightarrow> (string \<times> column) list option"
  w_tables :: "string \<Rightarrow> string option"
  w_h5file :: h5file
  w_group :: string
  w_log :: "log_event list"

text \<open>The constructor, once the output file has been opened in write mode.\<close>

definition HDF5TableWriter :: "string \<Rightarrow> writer" where
  "HDF5TableWriter group_name =
    \<lparr>w_transforms = (\<lambda>t. []),
     w_exclusions = (\<lambda>t. []),
     w_schemas = (\<lambda>t. None),
     w_tables = (\<lambda>t. None),
     w_h5file = \<lparr>f_isopen = True, f_groups = [group_name], f_nodes = []\<rparr>,
     w_group = group_name,
     w_log = []\<rparr>"

text \<open>The pattern is given compiled.\<close>

definition exclude :: "writer \<Rightarrow> string \<Rightarrow> regex \<Rightarrow> writer" where
  "exclude w table_name pattern =
    w\<lparr>w_exclusions := (w_exclusions w)(table_name := w_exclusions w table_name @ [pattern])\<rparr>"

fun first_match :: "regex list \<Rightarrow> string \<Rightarrow> bool" where
  "first_match [] col_name = False"
| "first_match (pattern # patterns) col_name =
     (if re_match pattern col_name then True else first_match patterns col_name)"

definition is_column_excluded :: "writer \<Rightarrow> string \<Rightarrow> string \<Rightarrow> bool" where
  "is_column_excluded w table_name col_name = first_match (w_exclusions w table_name) col_name"

definition add_column_transform :: "writer \<Rightarrow> string \<Rightarrow> string \<Rightarrow> transform \<Rightarrow> writer" where
  "add_column_transform w table_name col_name tr =
    w\<lparr>w_transforms :=
        (w_transforms w)(table_name := AList.update col_name tr (w_transforms w table_name)),
      w_log := w_log w @ [AddedTransform table_name col_name]\<rparr>"

definition apply_col_transform :: "writer \<Rightarrow> string \<Rightarrow> string \<Rightarrow> pyval \<Rightarrow> error + pyval" where
  "apply_col_transform w table_name col_name v =
    (case map_of (w_transforms w table_name) col_name of
       Some tr \<Rightarrow> tr v
     | None \<Rightarrow> Inr v)"

definition HDF5TableWriter_close :: "writer \<Rightarrow> writer" where
  "HDF5TableWriter_close w = w\<lparr>w_h5file := file_close (w_h5file w)\<rparr>"

subsection \<open>Schema derivation\<close>

text \<open>
  The body of the loop of \<^verbatim>\<open>_create_hdf5_table_schema\<close> is a chain of four statements:
  the exclusion test, the test for a quantity, the test for an array, and the test for a
  timestamp with its \<^verbatim>\<open>elif\<close> for the scalars of the type map. Each of the last three
  is a function here.
\<close>

definition unit_key :: "string \<Rightarrow> string" where
  "unit_key col_name = col_name @ ''_UNIT''"

definition quantity_branch ::
  "env \<Rightarrow> string \<Rightarrow> string \<Rightarrow> field \<Rightarrow> writer \<Rightarrow> (string \<times> pyval) list
     \<Rightarrow> error + pyval \<times> writer \<times> (string \<times> pyval) list" where
  "quantity_branch E table_name col_name fld w meta =
    (case f_value fld of
       Quantity p u \<Rightarrow>
         (case (case f_unit fld of
                  Some req_unit \<Rightarrow>
                    ((\<lambda>x. tr_convert_and_strip_unit E x req_unit),
                     AList.update (unit_key col_name) (Str req_unit) meta)
                | None \<Rightarrow>
                    (quantity_value,
                     AList.update (unit_key col_name) (Str (quantity_unit (f_value fld))) meta)) of
            (tr, meta') \<Rightarrow>
              (case tr (f_value fld) of
                 Inl e \<Rightarrow> Inl e
               | Inr v \<Rightarrow> Inr (v, add_column_transform w table_name col_name tr, meta')))
     | _ \<Rightarrow> Inr (f_value fld, w, meta))"

definition array_branch ::
  "string \<Rightarrow> pyval \<Rightarrow> (string \<times> column) list \<Rightarrow> error + string \<times> (string \<times> column) list" where
  "array_branch col_name v columns =
    (case v of
       Num (NdArray dt sh xs) \<Rightarrow>
         (case map_of PYTABLES_TYPE_MAP dt of
            None \<Rightarrow> Inl (KeyError dt)
          | Some ct \<Rightarrow> Inr (dt, AList.update col_name \<lparr>col_type = ct, col_shape = sh\<rparr> columns))
     | _ \<Rightarrow> Inr ([], columns))"

definition scalar_branch ::
  "string \<Rightarrow> string \<Rightarrow> pyval \<Rightarrow> string \<Rightarrow> writer \<Rightarrow> (string \<times> column) list
     \<Rightarrow> string \<times> writer \<times> (string \<times> column) list" where
  "scalar_branch table_name col_name v typename w columns =
    (case v of
       Time mjd \<Rightarrow>
         (typename,
          add_column_transform w table_name col_name tr_time_to_float,
          AList.update col_name \<lparr>col_type = Float64Col, col_shape = []\<rparr> columns)
     | _ \<Rightarrow>
         (case map_of PYTABLES_TYPE_MAP (type_name v) of
            Some ct \<Rightarrow>
              (type_name v, w, AList.update col_name \<lparr>col_type = ct, col_shape = []\<rparr> columns)
          | None \<Rightarrow> (typename, w, columns)))"

type_synonym schema_state = "writer \<times> (string \<times> column) list \<times> (string \<times> pyval) list"

definition schema_column ::
  "env \<Rightarrow> string \<Rightarrow> string \<times> field \<Rightarrow> schema_state \<Rightarrow> error + schema_state" where
  "schema_column E table_name item st =
    (case item of (col_name, fld) \<Rightarrow>
     (case st of (w, columns, meta) \<Rightarrow>
       (if is_column_excluded w table_name col_name
        then Inr (w\<lparr>w_log := w_log w @ [ExcludedColumn table_name col_name]\<rparr>, columns, meta)
        else
          (case quantity_branch E table_name col_name fld w meta of
             Inl e \<Rightarrow> Inl e
           | Inr (v, w1, meta1) \<Rightarrow>
               (case array_branch col_name v columns of
                  Inl e \<Rightarrow> Inl e
                | Inr (typename1, columns1) \<Rightarrow>
                    (case scalar_branch table_name col_name v typename1 w1 columns1 of
                       (typename2, w2, columns2) \<Rightarrow>
                         Inr (w2\<lparr>w_log := w_log w2 @ [AddedCol table_name col_name typename2]\<rparr>,
                              columns2, meta1)))))))"

fun schema_items ::
  "env \<Rightarrow> string \<Rightarrow> (string \<times> field) list \<Rightarrow> schema_state \<Rightarrow> error + schema_state" where
  "schema_items E table_name [] st = Inr st"
| "schema_items E table_name (item # items) st =
     (case schema_column E table_name item st of
        Inl e \<Rightarrow> Inl e
      | Inr st' \<Rightarrow> schema_items E table_name items st')"

fun schema_containers ::
  "env \<Rightarrow> string \<Rightarrow> container list \<Rightarrow> schema_state \<Rightarrow> error + schema_state" where
  "schema_containers E table_name [] st = Inr st"
| "schema_containers E table_name (c # cs) st =
     (case schema_items E table_name (c_fields c) st of
        Inl e \<Rightarrow> Inl e
      | Inr st' \<Rightarrow> schema_containers E table_name cs st')"

definition create_hdf5_table_schema ::
  "env \<Rightarrow> writer \<Rightarrow> string \<Rightarrow> container list \<Rightarrow> error + writer \<times> (string \<times> pyval) list" where
  "create_hdf5_table_schema E w table_name containers =
    (case schema_containers E table_name containers (w, [], []) of
       Inl e \<Rightarrow> Inl e
     | Inr (w', columns, meta) \<Rightarrow>
         Inr (w'\<lparr>w_schemas := (w_schemas w')(table_name := Some columns)\<rparr>,
              AList.update ''CTAPIPE_VERSION'' (Str (ctapipe_version E)) meta))"

subsection \<open>Creating the table and appending rows\<close>

text \<open>\<^verbatim>\<open>d.update(other)\<close>\<close>

definition dict_update :: "('k \<times> 'v) list \<Rightarrow> ('k \<times> 'v) list \<Rightarrow> ('k \<times> 'v) list" where
  "dict_update d other = fold (\<lambda>(k, v). AList.update k v) other d"

fun join :: "string \<Rightarrow> string list \<Rightarrow> string" where
  "join sep [] = []"
| "join sep [x] = x"
| "join sep (x # y # ys) = x @ sep @ join sep (y # ys)"

definition setup_new_table :: "env \<Rightarrow> writer \<Rightarrow> string \<Rightarrow> container list \<Rightarrow> error + writer" where
  "setup_new_table E w table_name containers =
    (case create_hdf5_table_schema E
            (w\<lparr>w_log := w_log w @ [Initializing table_name]\<rparr>) table_name containers of
       Inl e \<Rightarrow> Inl e
     | Inr (w1, meta) \<Rightarrow>
         (case w_schemas w1 table_name of
            None \<Rightarrow> Inl (KeyError table_name)
          | Some description \<Rightarrow>
              (case create_table (w_h5file w1) (w_group w1) table_name
                      (''Storage of '' @ join '','' (map c_class containers)) description of
                 Inl e \<Rightarrow> Inl e
               | Inr (f, table) \<Rightarrow>
                   Inr (w1\<lparr>w_h5file :=
                             update_node f table
                               (\<lambda>tab. tab\<lparr>t_attrs :=
                                  dict_update (t_attrs tab)
                                    (fold (\<lambda>c m. dict_update m (c_meta c)) containers meta)\<rparr>),
                           w_tables := (w_tables w1)(table_name := Some table)\<rparr>))))"

fun fill_row ::
  "writer \<Rightarrow> string \<Rightarrow> h5table \<Rightarrow> container \<Rightarrow> string list \<Rightarrow> (string \<times> pyval) list
     \<Rightarrow> error + (string \<times> pyval) list" where
  "fill_row w table_name tab c [] row = Inr row"
| "fill_row w table_name tab c (colname # colnames) row =
     (case container_getitem c colname of
        Inl e \<Rightarrow> Inl e
      | Inr v \<Rightarrow>
          (case apply_col_transform w table_name colname v of
             Inl e \<Rightarrow> Inl e
           | Inr v' \<Rightarrow>
               (case row_setitem tab row colname v' of
                  Inl e \<Rightarrow> Inl e
                | Inr row' \<Rightarrow> fill_row w table_name tab c colnames row')))"

fun fill_rows ::
  "writer \<Rightarrow> string \<Rightarrow> h5table \<Rightarrow> container list \<Rightarrow> (string \<times> pyval) list
     \<Rightarrow> error + (string \<times> pyval) list" where
  "fill_rows w table_name tab [] row = Inr row"
| "fill_rows w table_name tab (c # cs) row =
     (case fill_row w table_name tab c
             (filter (\<lambda>k. k \<in> set (table_colnames tab)) (container_keys c)) row of
        Inl e \<Rightarrow> Inl e
      | Inr row' \<Rightarrow> fill_rows w table_name tab cs row')"

definition append_row :: "writer \<Rightarrow> string \<Rightarrow> container list \<Rightarrow> error + writer" where
  "append_row w table_name containers =
    (case w_tables w table_name of
       None \<Rightarrow> Inl (KeyError table_name)
     | Some table \<Rightarrow>
         (case get_node (w_h5file w) table of
            Inl e \<Rightarrow> Inl e
          | Inr tab \<Rightarrow>
              (case fill_rows w table_name tab containers (table_row tab) of
                 Inl e \<Rightarrow> Inl e
               | Inr row \<Rightarrow>
                   Inr (w\<lparr>w_h5file :=
                            update_node (w_h5file w) table
                              (\<lambda>tab. tab\<lparr>t_rows := t_rows tab @ [row]\<rparr>)\<rparr>))))"

text \<open>
  \<^verbatim>\<open>write\<close>: a single container has been wrapped into a tuple, so the second
  argument is always a list.
\<close>

definition HDF5TableWriter_write :: "env \<Rightarrow> writer \<Rightarrow> string \<Rightarrow> container list \<Rightarrow> error + writer" where
  "HDF5TableWriter_write E w table_name containers =
    (case (if w_schemas w table_name = None
           then setup_new_table E w table_name containers
           else Inr w) of
       Inl e \<Rightarrow> Inl e
     | Inr w1 \<Rightarrow> append_row w1 table_name containers)"

section \<open>The table reader\<close>

record reader =
  r_cols_to_read :: "string \<Rightarrow> string list"
  r_transforms :: "string \<Rightarrow> (string \<times> transform) list"
  r_tables :: "string \<Rightarrow> h5table option"
  r_h5file :: h5file
  r_log :: "log_event list"

text \<open>The constructor, on a file that has been opened for reading.\<close>

definition HDF5TableReader :: "h5file \<Rightarrow> reader" where
  "HDF5TableReader f =
    \<lparr>r_cols_to_read = (\<lambda>t. []),
     r_transforms = (\<lambda>t. []),
     r_tables = (\<lambda>t. None),
     r_h5file = f\<lparr>f_isopen := True\<rparr>,
     r_log = []\<rparr>"

definition HDF5TableReader_close :: "reader \<Rightarrow> reader" where
  "HDF5TableReader_close r = r\<lparr>r_h5file := file_close (r_h5file r)\<rparr>"

definition r_add_column_transform :: "reader \<Rightarrow> string \<Rightarrow> string \<Rightarrow> transform \<Rightarrow> reader" where
  "r_add_column_transform r table_name col_name tr =
    r\<lparr>r_transforms :=
        (r_transforms r)(table_name := AList.update col_name tr (r_transforms r table_name)),
      r_log := r_log r @ [AddedTransform table_name col_name]\<rparr>"

definition r_apply_col_transform :: "reader \<Rightarrow> string \<Rightarrow> string \<Rightarrow> pyval \<Rightarrow> error + pyval" where
  "r_apply_col_transform r table_name col_name v =
    (case map_of (r_transforms r table_name) col_name of
       Some tr \<Rightarrow> tr v
     | None \<Rightarrow> Inr v)"

definition endswith :: "string \<Rightarrow> string \<Rightarrow> bool" where
  "endswith s suf = (length suf \<le> length s \<and> drop (length s - length suf) s = suf)"

fun header_transforms :: "env \<Rightarrow> string \<Rightarrow> h5table \<Rightarrow> string list \<Rightarrow> reader \<Rightarrow> reader" where
  "header_transforms E table_name tab [] r = r"
| "header_transforms E table_name tab (attr # attrs) r =
     header_transforms E table_name tab attrs
       (if endswith attr ''_UNIT'' then
          (case map_of (t_attrs tab) attr of
             Some unitname \<Rightarrow>
               r_add_column_transform r table_name (take (length attr - 5) attr)
                 (\<lambda>v. tr_add_unit E v unitname)
           | None \<Rightarrow> r)
        else r)"

definition map_transforms_from_table_header :: "env \<Rightarrow> reader \<Rightarrow> string \<Rightarrow> error + reader" where
  "map_transforms_from_table_header E r table_name =
    (case r_tables r table_name of
       None \<Rightarrow> Inl (KeyError table_name)
     | Some tab \<Rightarrow> Inr (header_transforms E table_name tab (map fst (t_attrs tab)) r))"

fun match_columns :: "string \<Rightarrow> container \<Rightarrow> string list \<Rightarrow> reader \<Rightarrow> reader" where
  "match_columns table_name c [] r = r"
| "match_columns table_name c (colname # colnames) r =
     match_columns table_name c colnames
       (if colname \<in> set (container_keys c)
        then r\<lparr>r_cols_to_read :=
                 (r_cols_to_read r)(table_name := r_cols_to_read r table_name @ [colname])\<rparr>
        else r\<lparr>r_log := r_log r @ [ColumnNotInContainer table_name colname (c_class c)]\<rparr>)"

fun check_fields :: "string \<Rightarrow> container \<Rightarrow> string list \<Rightarrow> reader \<Rightarrow> reader" where
  "check_fields table_name c [] r = r"
| "check_fields table_name c (colname # colnames) r =
     check_fields table_name c colnames
       (if colname \<notin> set (r_cols_to_read r table_name)
        then r\<lparr>r_log := r_log r @ [MissingColumn table_name colname (c_class c)]\<rparr>
        else r)"

definition map_table_to_container ::
  "reader \<Rightarrow> string \<Rightarrow> container \<Rightarrow> error + reader \<times> container" where
  "map_table_to_container r table_name c =
    (case r_tables r table_name of
       None \<Rightarrow> Inl (KeyError table_name)
     | Some tab \<Rightarrow>
         Inr (check_fields table_name c (container_keys c)
                (match_columns table_name c (table_colnames tab) r),
              c\<lparr>c_meta := dict_update (c_meta c) (t_attrs tab)\<rparr>))"

definition setup_table ::
  "env \<Rightarrow> reader \<Rightarrow> string \<Rightarrow> container \<Rightarrow> error + reader \<times> container \<times> h5table" where
  "setup_table E r table_name c =
    (case get_node (r_h5file r) table_name of
       Inl e \<Rightarrow> Inl e
     | Inr tab \<Rightarrow>
         (case map_table_to_container (r\<lparr>r_tables := (r_tables r)(table_name := Some tab)\<rparr>)
                 table_name c of
            Inl e \<Rightarrow> Inl e
          | Inr (r1, c1) \<Rightarrow>
              (case map_transforms_from_table_header E r1 table_name of
                 Inl e \<Rightarrow> Inl e
               | Inr r2 \<Rightarrow> Inr (r2, c1, tab))))"

text \<open>The \<^verbatim>\<open>for\<close> loop of \<^verbatim>\<open>read\<close> that fills the container from one row.\<close>

fun read_row ::
  "reader \<Rightarrow> string \<Rightarrow> (string \<times> pyval) list \<Rightarrow> string list \<Rightarrow> container \<Rightarrow> error + container" where
  "read_row r table_name row [] c = Inr c"
| "read_row r table_name row (colname # colnames) c =
     (case row_getitem row colname of
        Inl e \<Rightarrow> Inl e
      | Inr cell \<Rightarrow>
          (case r_apply_col_transform r table_name colname cell of
             Inl e \<Rightarrow> Inl e
           | Inr v \<Rightarrow>
               (case container_setitem c colname v of
                  Inl e \<Rightarrow> Inl e
                | Inr c' \<Rightarrow> read_row r table_name row colnames c')))"

text \<open>
  The container as the \<^verbatim>\<open>for\<close> loop leaves it, also when an assignment raised: the
  fields assigned before keep their new values.
\<close>

fun assigned ::
  "reader \<Rightarrow> string \<Rightarrow> (string \<times> pyval) list \<Rightarrow> string list \<Rightarrow> container \<Rightarrow> container" where
  "assigned r table_name row [] c = c"
| "assigned r table_name row (colname # colnames) c =
     (case row_getitem row colname of
        Inl e \<Rightarrow> c
      | Inr cell \<Rightarrow>
          (case r_apply_col_transform r table_name colname cell of
             Inl e \<Rightarrow> c
           | Inr v \<Rightarrow>
               (case container_setitem c colname v of
                  Inl e \<Rightarrow> c
                | Inr c' \<Rightarrow> assigned r table_name row colnames c')))"

text \<open>
  \<^verbatim>\<open>read\<close> is a generator function: the call returns a generator and runs nothing of
  the body. The body runs when the generator is advanced with \<^verbatim>\<open>next\<close>, the first time
  from its start (with the set-up of the table, if the reader has not got it by then) to
  the first \<^verbatim>\<open>yield\<close>, each later time from the \<^verbatim>\<open>yield\<close> to the next one. A
  generator that has returned or raised is finished. The generator refers to the
  caller's container; its state is kept here with the generator, and what is yielded is
  this container.
\<close>

datatype position = Created | Suspended h5table nat | Finished

record generator =
  g_table_name :: string
  g_container :: container
  g_position :: position

definition HDF5TableReader_read :: "string \<Rightarrow> container \<Rightarrow> generator" where
  "HDF5TableReader_read table_name c =
    \<lparr>g_table_name = table_name, g_container = c, g_position = Created\<rparr>"

datatype step = Yielded | StopIteration | Raised error

text \<open>One turn of the \<^verbatim>\<open>while\<close> loop, from the \<^verbatim>\<open>try\<close> to the \<^verbatim>\<open>yield\<close>.\<close>

definition loop_turn :: "reader \<Rightarrow> generator \<Rightarrow> h5table \<Rightarrow> nat \<Rightarrow> generator \<times> step" where
  "loop_turn r g tab row_count =
    (case table_getitem (r_h5file r) tab row_count of
       IndexError \<Rightarrow> (g\<lparr>g_position := Finished\<rparr>, StopIteration)
     | Failed e \<Rightarrow> (g\<lparr>g_position := Finished\<rparr>, Raised e)
     | Row row \<Rightarrow>
         (case read_row r (g_table_name g) row (r_cols_to_read r (g_table_name g))
                 (g_container g) of
            Inl e \<Rightarrow>
              (g\<lparr>g_container :=
                   assigned r (g_table_name g) row (r_cols_to_read r (g_table_name g))
                     (g_container g),
                 g_position := Finished\<rparr>,
               Raised e)
          | Inr c' \<Rightarrow> (g\<lparr>g_container := c', g_position := Suspended tab row_count\<rparr>, Yielded)))"

text \<open>\<^verbatim>\<open>next(generator)\<close>, with the reader as it is at that moment.\<close>

definition generator_next :: "env \<Rightarrow> reader \<Rightarrow> generator \<Rightarrow> reader \<times> generator \<times> step" where
  "generator_next E r g =
    (case g_position g of
       Finished \<Rightarrow> (r, g, StopIteration)
     | Suspended tab row_count \<Rightarrow>
         (case loop_turn r g tab (row_count + 1) of (g', s) \<Rightarrow> (r, g', s))
     | Created \<Rightarrow>
         (case (if r_tables r (g_table_name g) = None
                then setup_table E r (g_table_name g) (g_container g)
                else (case r_tables r (g_table_name g) of
                        Some tab \<Rightarrow> Inr (r, g_container g, tab)
                      | None \<Rightarrow> Inl (KeyError (g_table_name g)))) of
            Inl e \<Rightarrow> (r, g\<lparr>g_position := Finished\<rparr>, Raised e)
          | Inr (r1, c1, tab) \<Rightarrow>
              (case loop_turn r1 (g\<lparr>g_container := c1\<rparr>) tab 0 of (g', s) \<Rightarrow> (r1, g', s))))"

text \<open>The rows that a generator has left to read, and one more when it has not started.\<close>

definition rows_left :: "reader \<Rightarrow> generator \<Rightarrow> nat" where
  "rows_left r g =
    (case g_position g of
       Finished \<Rightarrow> 0
     | Suspended tab row_count \<Rightarrow> length (t_rows tab) - row_count
     | Created \<Rightarrow>
         Suc (case r_tables r (g_table_name g) of
                Some tab \<Rightarrow> length (t_rows tab)
              | None \<Rightarrow>
                  (case map_of (f_nodes (r_h5file r)) (g_table_name g) of
                     Some tab \<Rightarrow> length (t_rows tab)
                   | None \<Rightarrow> 0)))"

text \<open>
  A \<^verbatim>\<open>for\<close> loop over a generator: it is advanced until it is finished. The result
  is the reader as the loop leaves it, the states in which the container was yielded,
  and the exception that ended the loop, if one did.
\<close>

function generator_run :: "env \<Rightarrow> reader \<Rightarrow> generator \<Rightarrow> reader \<times> container list \<times> error option" where
  "generator_run E r g =
    (case generator_next E r g of
       (r', g', Yielded) \<Rightarrow>
         (case generator_run E r' g' of (r'', ys, outcome) \<Rightarrow> (r'', g_container g' # ys, outcome))
     | (r', g', StopIteration) \<Rightarrow> (r', [], None)
     | (r', g', Raised e) \<Rightarrow> (r', [], Some e))"
  by pat_completeness auto
termination
  apply (relation "measure (\<lambda>(E, r, g). rows_left r g)")
   apply simp
  subgoal premises a for E r g r' y g' s
  proof -
    from a have n: "generator_next E r g = (r', g', Yielded)" by simp
    have "rows_left r' g' < rows_left r g"
    proof (cases "g_position g")
      case Finished
      with n show ?thesis by (simp add: generator_next_def)
    next
      case (Suspended tab k)
      with n show ?thesis
        by (auto simp: generator_next_def loop_turn_def rows_left_def table_getitem_def
              split: if_splits sum.splits prod.splits indexed.splits)
    next
      case Created
      show ?thesis
      proof (cases "r_tables r (g_table_name g)")
        case None
        with n Created show ?thesis
          by (auto simp: generator_next_def loop_turn_def rows_left_def table_getitem_def
                setup_table_def get_node_def map_table_to_container_def
                map_transforms_from_table_header_def
                split: if_splits sum.splits prod.splits indexed.splits option.splits)
      next
        case (Some tab)
        with n Created show ?thesis
          by (auto simp: generator_next_def loop_turn_def rows_left_def table_getitem_def
                split: if_splits sum.splits prod.splits indexed.splits)
      qed
    qed
    then show ?thesis by simp
  qed
  done

declare generator_run.simps [simp del]

section \<open>Callers and notions used in the properties\<close>

text \<open>
  The texts that a pattern denotes; \<open>star A\<close> holds the concatenations of any number of
  texts of \<open>A\<close>.
\<close>

inductive_set star :: "string set \<Rightarrow> string set" for A :: "string set" where
  star_empty: "[] \<in> star A"
| star_more: "u \<in> A \<Longrightarrow> v \<in> star A \<Longrightarrow> u @ v \<in> star A"

fun lang :: "regex \<Rightarrow> string set" where
  "lang Never = {}"
| "lang Eps = {[]}"
| "lang (Chr c) = {[c]}"
| "lang Dot = {[c] |c. c \<noteq> CHR 0x0A}"
| "lang (Seq r s) = {u @ v |u v. u \<in> lang r \<and> v \<in> lang s}"
| "lang (Alt r s) = lang r \<union> lang s"
| "lang (Star r) = star (lang r)"

text \<open>
  What a loop over \<open>read\<close> amounts to: the rows of the table are read from a row
  count on, into the container as the row before left it; a generator that is advanced
  from its start sets the table up, if the reader has not got it, and reads from row 0.
\<close>

function read_loop ::
  "reader \<Rightarrow> string \<Rightarrow> h5table \<Rightarrow> nat \<Rightarrow> container \<Rightarrow> container list \<times> error option" where
  "read_loop r table_name tab row_count c =
    (case table_getitem (r_h5file r) tab row_count of
       IndexError \<Rightarrow> ([], None)
     | Failed e \<Rightarrow> ([], Some e)
     | Row row \<Rightarrow>
         (case read_row r table_name row (r_cols_to_read r table_name) c of
            Inl e \<Rightarrow> ([], Some e)
          | Inr c' \<Rightarrow>
              (case read_loop r table_name tab (row_count + 1) c' of
                 (ys, outcome) \<Rightarrow> (c' # ys, outcome))))"
  by pat_completeness auto
termination
  by (relation "measure (\<lambda>(r, table_name, tab, row_count, c). length (t_rows tab) - row_count)")
     (auto simp: table_getitem_def split: if_splits)

definition read_all ::
  "env \<Rightarrow> reader \<Rightarrow> string \<Rightarrow> container \<Rightarrow> reader \<times> container list \<times> error option" where
  "read_all E r table_name c =
    (case (if r_tables r table_name = None
           then setup_table E r table_name c
           else (case r_tables r table_name of
                   Some tab \<Rightarrow> Inr (r, c, tab)
                 | None \<Rightarrow> Inl (KeyError table_name))) of
       Inl e \<Rightarrow> (r, [], Some e)
     | Inr (r1, c1, tab) \<Rightarrow>
         (case read_loop r1 table_name tab 0 c1 of
            (ys, outcome) \<Rightarrow> (r1, ys, outcome)))"

text \<open>A caller that writes one row after the other; an exception ends the run.\<close>

fun write_calls :: "env \<Rightarrow> writer \<Rightarrow> (string \<times> container list) list \<Rightarrow> error + writer" where
  "write_calls E w [] = Inr w"
| "write_calls E w (call # calls) =
     (case HDF5TableWriter_write E w (fst call) (snd call) of
        Inl e \<Rightarrow> Inl e
      | Inr w' \<Rightarrow> write_calls E w' calls)"

text \<open>
  What the derivation of the schema of table \<open>t\<close> leaves alone in the writer: all but the
  transforms of \<open>t\<close> and log entries other than \<open>Initializing\<close>.
\<close>

definition schema_frame :: "string \<Rightarrow> writer \<Rightarrow> writer \<Rightarrow> bool" where
  "schema_frame t w w' \<longleftrightarrow>
     w_schemas w' = w_schemas w \<and> w_tables w' = w_tables w \<and> w_h5file w' = w_h5file w \<and>
     w_group w' = w_group w \<and> w_exclusions w' = w_exclusions w \<and>
     (\<forall>t'. t' \<noteq> t \<longrightarrow> w_transforms w' t' = w_transforms w t') \<and>
     (\<forall>t'. count_list (w_log w') (Initializing t') = count_list (w_log w) (Initializing t'))"

text \<open>
  Every table of the first file is in the second, with the same columns and header; its
  rows are those it had, followed by rows that have exactly the table's columns.
\<close>

definition tables_extended :: "h5file \<Rightarrow> h5file \<Rightarrow> bool" where
  "tables_extended f f' \<longleftrightarrow>
     (\<forall>path tab. map_of (f_nodes f) path = Some tab \<longrightarrow>
        (\<exists>tab' rows. map_of (f_nodes f') path = Some tab' \<and> t_attrs tab' = t_attrs tab \<and>
           t_description tab' = t_description tab \<and> t_rows tab' = t_rows tab @ rows \<and>
           (\<forall>row\<in>set rows. map fst row = table_colnames tab)))"

text \<open>
  What the schema derivation does with one field, read off the specification (section
  4.3): the write-side transform it registers, the value the column type is derived from
  (a quantity converted to the required unit and stripped), the column that the type map
  gives for this value, and the unit recorded in the header.
\<close>

definition field_transform :: "env \<Rightarrow> field \<Rightarrow> transform option" where
  "field_transform E fld =
    (case f_value fld of
       Quantity p u \<Rightarrow>
         Some (case f_unit fld of
                 Some req_unit \<Rightarrow> (\<lambda>x. tr_convert_and_strip_unit E x req_unit)
               | None \<Rightarrow> quantity_value)
     | Time mjd \<Rightarrow> Some tr_time_to_float
     | _ \<Rightarrow> None)"

definition stripped :: "env \<Rightarrow> field \<Rightarrow> error + pyval" where
  "stripped E fld =
    (case f_value fld of
       Quantity p u \<Rightarrow>
         (case f_unit fld of
            Some req_unit \<Rightarrow> tr_convert_and_strip_unit E (Quantity p u) req_unit
          | None \<Rightarrow> Inr (Num p))
     | v \<Rightarrow> Inr v)"

definition column_for :: "pyval \<Rightarrow> column option" where
  "column_for v =
    (case v of
       Num (NdArray dt sh xs) \<Rightarrow>
         map_option (\<lambda>ct. \<lparr>col_type = ct, col_shape = sh\<rparr>) (map_of PYTABLES_TYPE_MAP dt)
     | Time mjd \<Rightarrow> Some \<lparr>col_type = Float64Col, col_shape = []\<rparr>
     | _ \<Rightarrow> map_option (\<lambda>ct. \<lparr>col_type = ct, col_shape = []\<rparr>)
             (map_of PYTABLES_TYPE_MAP (type_name v)))"

definition field_unit :: "field \<Rightarrow> string option" where
  "field_unit fld =
    (case f_value fld of
       Quantity p u \<Rightarrow> Some (case f_unit fld of Some req_unit \<Rightarrow> req_unit | None \<Rightarrow> u)
     | _ \<Rightarrow> None)"

definition has_column :: "env \<Rightarrow> field \<Rightarrow> bool" where
  "has_column E fld = (case stripped E fld of Inl e \<Rightarrow> False | Inr v \<Rightarrow> column_for v \<noteq> None)"

text \<open>
  The header attributes of a new table (the metadata of the derivation, the version
  marker, then the metadata of the records), and the table as it is created.
\<close>

definition header_attrs :: "env \<Rightarrow> container list \<Rightarrow> (string \<times> pyval) list \<Rightarrow> (string \<times> pyval) list" where
  "header_attrs E cs meta =
     dict_update []
       (fold (\<lambda>c m. dict_update m (c_meta c)) cs
          (AList.update ''CTAPIPE_VERSION'' (Str (ctapipe_version E)) meta))"

definition new_table :: "env \<Rightarrow> container list \<Rightarrow> (string \<times> column) list \<Rightarrow> (string \<times> pyval) list \<Rightarrow> h5table" where
  "new_table E cs cols meta =
    \<lparr>t_title = ''Storage of '' @ join '','' (map c_class cs), t_description = cols,
     t_attrs = header_attrs E cs meta, t_rows = []\<rparr>"

text \<open>Concrete inputs: a table of units and the record of the specification's scenario.\<close>

definition example_Unit :: "pyval \<Rightarrow> error + string" where
  "example_Unit name =
    (case name of
       Str u \<Rightarrow> if u \<in> {''m'', ''cm'', ''s''} then Inr u else Inl ValueError
     | NoneVal \<Rightarrow> Inr []
     | _ \<Rightarrow> Inl TypeError)"

definition example_env :: env where
  "example_env =
    \<lparr>astropy_Unit = example_Unit,
     astropy_units =
       map_of [(''m'', (''length'', 1)), (''cm'', (''length'', 1 / 100)), (''s'', (''time'', 1))],
     ctapipe_version = ''0.6.1''\<rparr>"

definition event_record :: "real \<Rightarrow> int \<Rightarrow> container" where
  "event_record x y =
    \<lparr>c_class = ''Event'',
     c_fields =
       [(''x'', \<lparr>f_value = Quantity (Scalar ''float64'' (F x)) ''m'', f_unit = Some ''m''\<rparr>),
        (''y'', \<lparr>f_value = Num (Scalar ''int'' (I y)), f_unit = None\<rparr>)],
     c_meta = []\<rparr>"

text \<open>A record with a field to exclude and a field of a kind without column type.\<close>

definition raw_pattern :: regex where
  "raw_pattern = Seq (literal ''raw_'') (Star Dot)"

definition raw_record :: container where
  "raw_record =
    \<lparr>c_class = ''Raw'',
     c_fields =
       [(''raw_x'', \<lparr>f_value = Num (Scalar ''float'' (F 1)), f_unit = None\<rparr>),
        (''x'', \<lparr>f_value = Num (Scalar ''float'' (F 2)), f_unit = None\<rparr>),
        (''label'', \<lparr>f_value = Str ''abc'', f_unit = None\<rparr>)],
     c_meta = []\<rparr>"

definition schema_names :: "error + writer \<Rightarrow> string \<Rightarrow> string list option" where
  "schema_names res t =
    (case res of Inl e \<Rightarrow> None | Inr w \<Rightarrow> map_option (map fst) (w_schemas w t))"

text \<open>A record with an array whose dtype the type map does not have.\<close>

definition image_record :: container where
  "image_record =
    \<lparr>c_class = ''Image'',
     c_fields =
       [(''pixels'', \<lparr>f_value = Num (NdArray ''uint8'' [2] [I 1, I 2]), f_unit = None\<rparr>),
        (''y'', \<lparr>f_value = Num (Scalar ''int'' (I 7)), f_unit = None\<rparr>)],
     c_meta = []\<rparr>"

text \<open>A length in centimetres in a field that requires metres.\<close>

definition length_record :: "real \<Rightarrow> container" where
  "length_record x =
    \<lparr>c_class = ''Length'',
     c_fields = [(''x'', \<lparr>f_value = Quantity (Scalar ''float64'' (F x)) ''cm'', f_unit = Some ''m''\<rparr>)],
     c_meta = []\<rparr>"

text \<open>
  Reading, row by row: the rows of a table read in order into one container; the value
  that a column of a row gives once the read-side transform, if there is one, is applied;
  a row whose mapped columns all give a value.
\<close>

fun yield_rows ::
  "reader \<Rightarrow> string \<Rightarrow> (string \<times> pyval) list list \<Rightarrow> container \<Rightarrow> container list \<times> error option" where
  "yield_rows r t [] c = ([], None)"
| "yield_rows r t (row # rows) c =
     (case read_row r t row (r_cols_to_read r t) c of
        Inl e \<Rightarrow> ([], Some e)
      | Inr c' \<Rightarrow> (case yield_rows r t rows c' of (ys, outcome) \<Rightarrow> (c' # ys, outcome)))"

definition returns :: "error + 'a \<Rightarrow> bool" where
  "returns res = (case res of Inl e \<Rightarrow> False | Inr x \<Rightarrow> True)"

definition cell_value :: "reader \<Rightarrow> string \<Rightarrow> (string \<times> pyval) list \<Rightarrow> string \<Rightarrow> error + pyval" where
  "cell_value r t row col =
    (case map_of row col of
       None \<Rightarrow> Inl (KeyError col)
     | Some cell \<Rightarrow> r_apply_col_transform r t col cell)"

definition row_readable :: "reader \<Rightarrow> string \<Rightarrow> (string \<times> pyval) list \<Rightarrow> bool" where
  "row_readable r t row \<longleftrightarrow> list_all (\<lambda>col. returns (cell_value r t row col)) (r_cols_to_read r t)"

text \<open>The transforms that the unit attributes of a header give.\<close>

fun unit_transforms ::
  "env \<Rightarrow> h5table \<Rightarrow> string list \<Rightarrow> (string \<times> transform) list \<Rightarrow> (string \<times> transform) list" where
  "unit_transforms E tab [] trs = trs"
| "unit_transforms E tab (attr # attrs) trs =
     unit_transforms E tab attrs
       (if endswith attr ''_UNIT'' then
          (case map_of (t_attrs tab) attr of
             Some unitname \<Rightarrow>
               AList.update (take (length attr - 5) attr) (\<lambda>v. tr_add_unit E v unitname) trs
           | None \<Rightarrow> trs)
        else trs)"

text \<open>
  The file that a run of writes leaves once the writer is closed, and the scenario of the
  specification: three records written to the table \<open>events\<close>.
\<close>

definition written_file :: "error + writer \<Rightarrow> h5file" where
  "written_file res =
    (case res of
       Inl e \<Rightarrow> \<lparr>f_isopen = False, f_groups = [], f_nodes = []\<rparr>
     | Inr w \<Rightarrow> w_h5file (HDF5TableWriter_close w))"

definition events_file :: h5file where
  "events_file =
     written_file (write_calls example_env (HDF5TableWriter ''g'')
       [(''events'', [event_record 1 7]), (''events'', [event_record 2 8]),
        (''events'', [event_record 3 9])])"

definition events_table :: h5table where
  "events_table =
         \<lparr>t_title = ''Storage of Event'',
          t_description =
            [(''x'', \<lparr>col_type = Float64Col, col_shape = []\<rparr>),
             (''y'', \<lparr>col_type = IntCol, col_shape = []\<rparr>)],
          t_attrs = [(''x_UNIT'', Str ''m''), (''CTAPIPE_VERSION'', Str ''0.6.1'')],
          t_rows =
            [[(''x'', Num (Scalar ''float64'' (F 1))), (''y'', Num (Scalar ''int32'' (I 7)))],
             [(''x'', Num (Scalar ''float64'' (F 2))), (''y'', Num (Scalar ''int32'' (I 8)))],
             [(''x'', Num (Scalar ''float64'' (F 3))), (''y'', Num (Scalar ''int32'' (I 9)))]]\<rparr>"

definition tagged_record :: container where
  "tagged_record = (event_record 0 0)\<lparr>c_meta := [(''run'', Str ''first'')]\<rparr>"

text \<open>A record with one of the two fields of the events.\<close>

definition position_record :: container where
  "position_record =
    \<lparr>c_class = ''Position'',
     c_fields =
       [(''x'', \<lparr>f_value = Quantity (Scalar ''float64'' (F 0)) ''m'', f_unit = Some ''m''\<rparr>)],
     c_meta = [(''run'', Str ''second'')]\<rparr>"

text \<open>
  The value that the write puts into the row for a field, before the engine converts it
  to the column's type.
\<close>

definition written :: "env \<Rightarrow> field \<Rightarrow> error + pyval" where
  "written E fld =
    (case field_transform E fld of
       Some tr \<Rightarrow> tr (f_value fld)
     | None \<Rightarrow> Inr (f_value fld))"

text \<open>
  Logical values. A number is well formed when its content is of the kind its type name
  says and, for an integer, in the range of the column that the type map gives; an
  array has as many elements as its shape says. Two numbers are the same when they have
  the same shape and the same numeric content, whatever the names of their types: a
  Python \<open>float\<close> and a numpy \<open>float64\<close> of the same value are the same number. Two
  values are the same when they are the same number, or quantities of the same number
  and the same unit string. A number is exact when it is its own conversion to a 64-bit
  float; a value is storable when it is a well-formed number with a column type, or a
  quantity of such a number that is exact. The value a field is normalised to is its
  value, converted to the required unit when the field is a quantity and declares one.
\<close>

fun fits :: "string \<Rightarrow> num \<Rightarrow> bool" where
  "fits dt (F x) = (dt \<in> {''float'', ''float64'', ''float32''})"
| "fits dt (I n) =
     ((dt \<in> {''int'', ''int32''} \<and> - (2 ^ 31) \<le> n \<and> n < 2 ^ 31) \<or>
      (dt = ''int64'' \<and> - (2 ^ 63) \<le> n \<and> n < 2 ^ 63))"
| "fits dt (B b) = (dt = ''bool'')"

fun well_formed :: "number \<Rightarrow> bool" where
  "well_formed (Scalar dt c) = fits dt c"
| "well_formed (NdArray dt sh xs) = (length xs = prod_list sh \<and> list_all (fits dt) xs)"

definition same_number :: "number \<Rightarrow> number \<Rightarrow> bool" where
  "same_number x y \<longleftrightarrow>
     shape_of x = shape_of y \<and> map num_val (elements x) = map num_val (elements y)"

definition exact :: "num \<Rightarrow> bool" where
  "exact c \<longleftrightarrow> to_float c = num_val c"

fun same_value :: "pyval \<Rightarrow> pyval \<Rightarrow> bool" where
  "same_value (Num x) (Num y) = same_number x y"
| "same_value (Quantity x u) (Quantity y u') = (same_number x y \<and> u = u')"
| "same_value v v' = False"

fun storable :: "pyval \<Rightarrow> bool" where
  "storable (Num x) = (well_formed x \<and> column_for (Num x) \<noteq> None)"
| "storable (Quantity x u) =
     (well_formed x \<and> column_for (Num x) \<noteq> None \<and> list_all exact (elements x))"
| "storable v = False"

definition normalised :: "env \<Rightarrow> field \<Rightarrow> error + pyval" where
  "normalised E fld =
    (case f_value fld of
       Quantity p u \<Rightarrow>
         (case f_unit fld of
            Some req_unit \<Rightarrow> quantity_to E (Quantity p u) req_unit
          | None \<Rightarrow> Inr (Quantity p u))
     | v \<Rightarrow> Inr v)"

text \<open>
  What a file holds and gives back: the values of a field in the records that a fresh
  reader yields, the cells of a column, an attribute of a table's header. The file with
  one length of 250 cm, and a record and a file with a timestamp.
\<close>

definition read_back :: "env \<Rightarrow> h5file \<Rightarrow> string \<Rightarrow> container \<Rightarrow> string \<Rightarrow> (error + pyval) list" where
  "read_back E f table_name c name =
    (case generator_run E (HDF5TableReader f) (HDF5TableReader_read table_name c) of
       (r, ys, outcome) \<Rightarrow> map (\<lambda>y. container_getitem y name) ys)"

definition stored :: "h5file \<Rightarrow> string \<Rightarrow> string \<Rightarrow> pyval option list" where
  "stored f path name =
    (case map_of (f_nodes f) path of
       None \<Rightarrow> []
     | Some tab \<Rightarrow> map (\<lambda>row. map_of row name) (t_rows tab))"

definition header :: "h5file \<Rightarrow> string \<Rightarrow> string \<Rightarrow> pyval option" where
  "header f path key =
    (case map_of (f_nodes f) path of
       None \<Rightarrow> None
     | Some tab \<Rightarrow> map_of (t_attrs tab) key)"

definition lengths_file :: h5file where
  "lengths_file =
     written_file (HDF5TableWriter_write example_env (HDF5TableWriter ''g'') ''lengths''
       [length_record 250])"

definition timed_record :: "real \<Rightarrow> container" where
  "timed_record m =
    \<lparr>c_class = ''Timed'',
     c_fields = [(''t'', \<lparr>f_value = Time m, f_unit = None\<rparr>)],
     c_meta = []\<rparr>"

definition times_file :: h5file where
  "times_file =
     written_file (HDF5TableWriter_write example_env (HDF5TableWriter ''g'') ''times''
       [timed_record 58000])"

text \<open>A record with a timestamp whose metadata has a key that ends in \<open>_UNIT\<close>.\<close>

definition labelled_record :: container where
  "labelled_record = (timed_record 58000)\<lparr>c_meta := [(''t_UNIT'', Str ''m'')]\<rparr>"

definition labelled_file :: h5file where
  "labelled_file =
     written_file (HDF5TableWriter_write example_env (HDF5TableWriter ''g'') ''times''
       [labelled_record])"

section \<open>Properties\<close>

subsection \<open>Closing\<close>

lemma file_close_twice: "file_close (file_close f) = file_close f"
  by (simp add: file_close_def)

lemma writer_close_twice:
  "HDF5TableWriter_close (HDF5TableWriter_close w) = HDF5TableWriter_close w"
  by (simp add: HDF5TableWriter_close_def file_close_twice)

lemma reader_close_twice:
  "HDF5TableReader_close (HDF5TableReader_close r) = HDF5TableReader_close r"
  by (simp add: HDF5TableReader_close_def file_close_twice)

lemma writer_close_iterated:
  "(HDF5TableWriter_close ^^ Suc n) w = HDF5TableWriter_close w"
  by (induction n) (simp_all add: writer_close_twice)

lemma reader_close_iterated:
  "(HDF5TableReader_close ^^ Suc n) r = HDF5TableReader_close r"
  by (induction n) (simp_all add: reader_close_twice)

text \<open>
  C7. Closing a writer or a reader is idempotent. \<open>close\<close> returns a state and has no
  error result; calling it \<open>n + 1\<close> times gives the state that one call gives; one call
  marks the file closed when it was open and changes nothing at all when it was closed
  already.
\<close>

theorem close_idempotent:
  "(HDF5TableWriter_close ^^ Suc n) w = HDF5TableWriter_close w
   \<and> (HDF5TableReader_close ^^ Suc n) r = HDF5TableReader_close r
   \<and> HDF5TableWriter_close w =
       (if f_isopen (w_h5file w) then w\<lparr>w_h5file := (w_h5file w)\<lparr>f_isopen := False\<rparr>\<rparr> else w)
   \<and> HDF5TableReader_close r =
       (if f_isopen (r_h5file r) then r\<lparr>r_h5file := (r_h5file r)\<lparr>f_isopen := False\<rparr>\<rparr> else r)"
  by (simp only: writer_close_iterated reader_close_iterated)
     (simp add: HDF5TableWriter_close_def HDF5TableReader_close_def file_close_def)

subsection \<open>Patterns\<close>

lemma nullable_lang: "nullable r \<longleftrightarrow> [] \<in> lang r"
  by (induction r) (auto intro: star_empty)

lemma lang_SeqI: "u \<in> lang r \<Longrightarrow> v \<in> lang s \<Longrightarrow> u @ v \<in> lang (Seq r s)"
  by auto

lemma star_cons:
  "a # w \<in> star A \<longleftrightarrow> (\<exists>u v. w = u @ v \<and> a # u \<in> A \<and> v \<in> star A)"
proof
  assume "a # w \<in> star A"
  then show "\<exists>u v. w = u @ v \<and> a # u \<in> A \<and> v \<in> star A"
  proof (induction "a # w" arbitrary: w rule: star.induct)
    case (star_more u v)
    show ?case
    proof (cases u)
      case Nil
      with star_more show ?thesis by simp
    next
      case (Cons b u')
      with star_more.hyps(1,2,4) show ?thesis by auto
    qed
  qed
next
  assume "\<exists>u v. w = u @ v \<and> a # u \<in> A \<and> v \<in> star A"
  then obtain u v where "w = u @ v" "a # u \<in> A" "v \<in> star A" by blast
  then show "a # w \<in> star A" using star_more [of "a # u" A v] by simp
qed

lemma deriv_lang: "w \<in> lang (deriv a r) \<longleftrightarrow> a # w \<in> lang r"
proof (induction r arbitrary: w)
  case (Seq r s)
  show ?case
  proof
    assume "w \<in> lang (deriv a (Seq r s))"
    then consider u v where "w = u @ v" "u \<in> lang (deriv a r)" "v \<in> lang s"
      | "nullable r" "w \<in> lang (deriv a s)"
      by (auto split: if_splits)
    then show "a # w \<in> lang (Seq r s)"
    proof cases
      case 1
      then have "a # u \<in> lang r" using Seq.IH(1) by simp
      with 1 have "(a # u) @ v \<in> lang (Seq r s)" by (intro lang_SeqI)
      with 1(1) show ?thesis by simp
    next
      case 2
      then have "[] \<in> lang r" "a # w \<in> lang s" using Seq.IH(2) nullable_lang by simp_all
      then have "[] @ (a # w) \<in> lang (Seq r s)" by (intro lang_SeqI)
      then show ?thesis by simp
    qed
  next
    assume "a # w \<in> lang (Seq r s)"
    then obtain u v where uv: "a # w = u @ v" "u \<in> lang r" "v \<in> lang s" by auto
    show "w \<in> lang (deriv a (Seq r s))"
    proof (cases u)
      case Nil
      with uv have "nullable r" "w \<in> lang (deriv a s)"
        using Seq.IH(2) nullable_lang by simp_all
      then show ?thesis by simp
    next
      case (Cons b u')
      with uv have "w = u' @ v" "u' \<in> lang (deriv a r)" using Seq.IH(1) by simp_all
      with uv(3) show ?thesis by auto
    qed
  qed
next
  case (Star r)
  show ?case
    using Star.IH by (auto simp: star_cons)
qed auto

text \<open>
  \<open>re_match\<close> is \<^verbatim>\<open>pattern.match\<close>: it holds exactly when some prefix of the text is
  denoted by the pattern.
\<close>

lemma re_match_prefix:
  "re_match r s \<longleftrightarrow> (\<exists>p q. s = p @ q \<and> p \<in> lang r)"
proof (induction s arbitrary: r)
  case Nil
  show ?case by (simp add: nullable_lang)
next
  case (Cons c cs)
  show ?case
  proof
    assume "re_match r (c # cs)"
    then consider "nullable r" | "re_match (deriv c r) cs" by auto
    then show "\<exists>p q. c # cs = p @ q \<and> p \<in> lang r"
    proof cases
      case 1
      then have "c # cs = [] @ (c # cs) \<and> [] \<in> lang r" by (simp add: nullable_lang)
      then show ?thesis by blast
    next
      case 2
      then obtain p q where "cs = p @ q" "p \<in> lang (deriv c r)" using Cons.IH by blast
      then have "c # cs = (c # p) @ q \<and> c # p \<in> lang r" by (simp add: deriv_lang)
      then show ?thesis by blast
    qed
  next
    assume "\<exists>p q. c # cs = p @ q \<and> p \<in> lang r"
    then obtain p q where pq: "c # cs = p @ q" "p \<in> lang r" by blast
    show "re_match r (c # cs)"
    proof (cases p)
      case Nil
      with pq(2) have "nullable r" by (simp add: nullable_lang)
      then show ?thesis by simp
    next
      case (Cons b p')
      with pq have "cs = p' @ q" "p' \<in> lang (deriv c r)" by (simp_all add: deriv_lang)
      then have "re_match (deriv c r) cs" using Cons.IH by blast
      then show ?thesis by simp
    qed
  qed
qed

subsection \<open>Schema derivation, field by field\<close>

lemma schema_frame_refl: "schema_frame t w w"
  by (simp add: schema_frame_def)

lemma schema_frame_trans: "schema_frame t w w1 \<Longrightarrow> schema_frame t w1 w2 \<Longrightarrow> schema_frame t w w2"
  by (simp add: schema_frame_def)

lemma schema_frame_add_transform: "schema_frame t w (add_column_transform w t col tr)"
  by (simp add: schema_frame_def add_column_transform_def count_list_append)

lemma schema_frame_log:
  "\<forall>t'. e \<noteq> Initializing t' \<Longrightarrow> schema_frame t w (w\<lparr>w_log := w_log w @ [e]\<rparr>)"
  by (simp add: schema_frame_def count_list_append)

lemma quantity_branch_frame:
  "quantity_branch E t col fld w meta = Inr (v, w', meta') \<Longrightarrow> schema_frame t w w'"
  by (auto simp: quantity_branch_def schema_frame_refl schema_frame_add_transform
           split: pyval.splits option.splits sum.splits)

lemma scalar_branch_frame:
  "scalar_branch t col v tn w cols = (tn', w', cols') \<Longrightarrow> schema_frame t w w'"
  by (auto simp: scalar_branch_def schema_frame_refl schema_frame_add_transform
           split: pyval.splits option.splits)

lemma schema_column_frame:
  assumes "schema_column E t item (w, cols, meta) = Inr (w', cols', meta')"
  shows "schema_frame t w w'"
proof (cases "is_column_excluded w t (fst item)")
  case True
  with assms have "w' = w\<lparr>w_log := w_log w @ [ExcludedColumn t (fst item)]\<rparr>"
    by (auto simp: schema_column_def split: prod.splits)
  then show ?thesis by (simp add: schema_frame_log)
next
  case False
  with assms obtain v w1 meta1 tn1 cols1 tn2 w2 where
    q: "quantity_branch E t (fst item) (snd item) w meta = Inr (v, w1, meta1)" and
    s: "scalar_branch t (fst item) v tn1 w1 cols1 = (tn2, w2, cols')" and
    w': "w' = w2\<lparr>w_log := w_log w2 @ [AddedCol t (fst item) tn2]\<rparr>"
    by (auto simp: schema_column_def split: prod.splits sum.splits)
  have "schema_frame t w w2"
    using quantity_branch_frame [OF q] scalar_branch_frame [OF s] by (rule schema_frame_trans)
  moreover have "schema_frame t w2 w'" unfolding w' by (simp add: schema_frame_log)
  ultimately show ?thesis by (rule schema_frame_trans)
qed

lemma schema_items_frame:
  "schema_items E t items (w, cols, meta) = Inr (w', cols', meta') \<Longrightarrow> schema_frame t w w'"
proof (induction items arbitrary: w cols meta)
  case Nil
  then show ?case by (simp add: schema_frame_refl)
next
  case (Cons item items)
  then show ?case
    by (auto split: sum.splits dest!: schema_column_frame intro: schema_frame_trans)
qed

lemma schema_containers_frame:
  "schema_containers E t cs (w, cols, meta) = Inr (w', cols', meta') \<Longrightarrow> schema_frame t w w'"
proof (induction cs arbitrary: w cols meta)
  case Nil
  then show ?case by (simp add: schema_frame_refl)
next
  case (Cons c cs)
  then show ?case
    by (auto split: sum.splits dest!: schema_items_frame intro: schema_frame_trans)
qed

lemma type_map_ndarray: "map_of PYTABLES_TYPE_MAP ''ndarray'' = None"
  by (simp add: PYTABLES_TYPE_MAP_def)

lemma stripped_is_number:
  "f_value fld = Quantity p u \<Longrightarrow> stripped E fld = Inr v \<Longrightarrow> \<exists>x. v = Num x"
  by (auto simp: stripped_def tr_convert_and_strip_unit_def quantity_to_def quantity_value_def
           split: option.splits if_splits prod.splits)

lemma schema_column_excluded:
  "is_column_excluded w t name \<Longrightarrow>
   schema_column E t (name, fld) (w, cols, meta) =
     Inr (w\<lparr>w_log := w_log w @ [ExcludedColumn t name]\<rparr>, cols, meta)"
  by (simp add: schema_column_def)

lemma column_branches:
  assumes "array_branch name v cols = Inr (tn1, cols1)"
      and "scalar_branch t name v tn1 w1 cols1 = (tn2, w2, cols2)"
  shows "cols2 = (case column_for v of Some c \<Rightarrow> AList.update name c cols | None \<Rightarrow> cols)"
    and "w2 = (case v of Time m \<Rightarrow> add_column_transform w1 t name tr_time_to_float | _ \<Rightarrow> w1)"
proof -
  have "cols2 = (case column_for v of Some c \<Rightarrow> AList.update name c cols | None \<Rightarrow> cols) \<and>
        w2 = (case v of Time m \<Rightarrow> add_column_transform w1 t name tr_time_to_float | _ \<Rightarrow> w1)"
  proof (cases v)
    case (Num x)
    show ?thesis
    proof (cases x)
      case (Scalar n c)
      with Num assms show ?thesis
        by (cases "map_of PYTABLES_TYPE_MAP n")
           (simp_all add: array_branch_def scalar_branch_def column_for_def)
    next
      case (NdArray dt sh xs)
      with Num assms show ?thesis
        by (cases "map_of PYTABLES_TYPE_MAP dt")
           (auto simp add: array_branch_def scalar_branch_def column_for_def type_map_ndarray)
    qed
  next
    case (Str x)
    with assms show ?thesis
      by (simp add: array_branch_def scalar_branch_def column_for_def PYTABLES_TYPE_MAP_def)
  next
    case NoneVal
    with assms show ?thesis
      by (simp add: array_branch_def scalar_branch_def column_for_def PYTABLES_TYPE_MAP_def)
  next
    case (Quantity p u)
    with assms show ?thesis
      by (simp add: array_branch_def scalar_branch_def column_for_def PYTABLES_TYPE_MAP_def)
  next
    case (Time m)
    with assms show ?thesis
      by (simp add: array_branch_def scalar_branch_def column_for_def)
  qed
  then show "cols2 = (case column_for v of Some c \<Rightarrow> AList.update name c cols | None \<Rightarrow> cols)"
    and "w2 = (case v of Time m \<Rightarrow> add_column_transform w1 t name tr_time_to_float | _ \<Rightarrow> w1)"
    by simp_all
qed

lemma quantity_branch_result:
  assumes "quantity_branch E t name fld w meta = Inr (v, w1, meta1)"
  shows "stripped E fld = Inr v \<and>
         w1 = (case f_value fld of
                 Quantity p u \<Rightarrow>
                   (case field_transform E fld of
                      Some tr \<Rightarrow> add_column_transform w t name tr
                    | None \<Rightarrow> w)
               | _ \<Rightarrow> w) \<and>
         meta1 = (case field_unit fld of
                    Some u \<Rightarrow> AList.update (unit_key name) (Str u) meta
                  | None \<Rightarrow> meta)"
proof (cases "f_value fld")
  case (Quantity p u)
  show ?thesis
  proof (cases "f_unit fld")
    case None
    with Quantity assms show ?thesis
      by (simp add: quantity_branch_def stripped_def field_transform_def field_unit_def
            quantity_value_def quantity_unit_def)
  next
    case (Some req_unit)
    with Quantity assms show ?thesis
      by (cases "tr_convert_and_strip_unit E (Quantity p u) req_unit")
         (simp_all add: quantity_branch_def stripped_def field_transform_def field_unit_def)
  qed
next
  case (Num x)
  from assms show ?thesis
    unfolding quantity_branch_def stripped_def field_unit_def Num by auto
next
  case (Str x)
  from assms show ?thesis
    unfolding quantity_branch_def stripped_def field_unit_def Str by auto
next
  case NoneVal
  from assms show ?thesis
    unfolding quantity_branch_def stripped_def field_unit_def NoneVal by auto
next
  case (Time m)
  from assms show ?thesis
    unfolding quantity_branch_def stripped_def field_unit_def Time by auto
qed

lemma schema_column_result:
  assumes "schema_column E t (name, fld) (w, cols, meta) = Inr (w', cols', meta')"
      and "\<not> is_column_excluded w t name"
  shows "\<exists>v. stripped E fld = Inr v \<and>
           w_transforms w' t =
             (case field_transform E fld of
                Some tr \<Rightarrow> AList.update name tr (w_transforms w t)
              | None \<Rightarrow> w_transforms w t) \<and>
           cols' = (case column_for v of Some c \<Rightarrow> AList.update name c cols | None \<Rightarrow> cols) \<and>
           meta' =
             (case field_unit fld of
                Some u \<Rightarrow> AList.update (unit_key name) (Str u) meta
              | None \<Rightarrow> meta)"
proof -
  from assms obtain v w1 meta1 tn1 cols1 tn2 w2 where
    q: "quantity_branch E t name fld w meta = Inr (v, w1, meta1)" and
    a: "array_branch name v cols = Inr (tn1, cols1)" and
    s: "scalar_branch t name v tn1 w1 cols1 = (tn2, w2, cols')" and
    w': "w' = w2\<lparr>w_log := w_log w2 @ [AddedCol t name tn2]\<rparr>" and
    m: "meta' = meta1"
    by (auto simp: schema_column_def split: prod.splits sum.splits)
  note qr = quantity_branch_result [OF q]
  note cb = column_branches [OF a s]
  have tr: "w_transforms w' t =
             (case field_transform E fld of
                Some tr \<Rightarrow> AList.update name tr (w_transforms w t)
              | None \<Rightarrow> w_transforms w t)"
  proof (cases "f_value fld")
    case (Quantity p u)
    with qr obtain x where "v = Num x" using stripped_is_number by blast
    with Quantity qr cb(2) w' show ?thesis
      by (simp add: field_transform_def add_column_transform_def)
  next
    case (Time m)
    from qr cb(2) w' show ?thesis
      unfolding field_transform_def stripped_def Time
      by (auto simp: add_column_transform_def)
  next
    case (Num x)
    from qr cb(2) w' show ?thesis
      unfolding field_transform_def stripped_def Num by auto
  next
    case (Str x)
    from qr cb(2) w' show ?thesis
      unfolding field_transform_def stripped_def Str by auto
  next
    case NoneVal
    from qr cb(2) w' show ?thesis
      unfolding field_transform_def stripped_def NoneVal by auto
  qed
  from qr cb(1) tr m show ?thesis by blast
qed

lemma unit_key_inj [simp]: "unit_key a = unit_key b \<longleftrightarrow> a = b"
  by (simp add: unit_key_def)

lemma schema_column_excluded_eq:
  "schema_column E t (name, fld) (w, cols, meta) = Inr (w', cols', meta') \<Longrightarrow>
   is_column_excluded w t name \<Longrightarrow>
   w_transforms w' = w_transforms w \<and> cols' = cols \<and> meta' = meta"
  by (auto simp: schema_column_def)

lemma schema_column_excl_same:
  "schema_column E t item (w, cols, meta) = Inr (w', cols', meta') \<Longrightarrow>
   is_column_excluded w' t = is_column_excluded w t"
  by (drule schema_column_frame) (simp add: is_column_excluded_def schema_frame_def fun_eq_iff)

lemma schema_column_other:
  assumes "schema_column E t (n0, f0) (w, cols, meta) = Inr (w', cols', meta')"
  shows "name \<noteq> n0 \<Longrightarrow> map_of (w_transforms w' t) name = map_of (w_transforms w t) name"
    and "name \<noteq> n0 \<Longrightarrow> map_of cols' name = map_of cols name"
    and "k \<noteq> unit_key n0 \<Longrightarrow> map_of meta' k = map_of meta k"
proof -
  have "(name \<noteq> n0 \<longrightarrow> map_of (w_transforms w' t) name = map_of (w_transforms w t) name \<and>
          map_of cols' name = map_of cols name) \<and>
        (k \<noteq> unit_key n0 \<longrightarrow> map_of meta' k = map_of meta k)"
  proof (cases "is_column_excluded w t n0")
    case True
    with schema_column_excluded_eq [OF assms] show ?thesis by simp
  next
    case False
    from schema_column_result [OF assms False] show ?thesis
      by (auto simp: update_conv' split: option.splits)
  qed
  then show "name \<noteq> n0 \<Longrightarrow> map_of (w_transforms w' t) name = map_of (w_transforms w t) name"
    and "name \<noteq> n0 \<Longrightarrow> map_of cols' name = map_of cols name"
    and "k \<noteq> unit_key n0 \<Longrightarrow> map_of meta' k = map_of meta k"
    by simp_all
qed

lemma schema_items_excl_same:
  "schema_items E t items (w, cols, meta) = Inr (w', cols', meta') \<Longrightarrow>
   is_column_excluded w' t = is_column_excluded w t"
  by (drule schema_items_frame) (simp add: is_column_excluded_def schema_frame_def fun_eq_iff)

lemma schema_items_other:
  assumes "schema_items E t items (w, cols, meta) = Inr (w', cols', meta')"
  shows "name \<notin> fst ` set items \<Longrightarrow>
           map_of (w_transforms w' t) name = map_of (w_transforms w t) name \<and>
           map_of cols' name = map_of cols name"
    and "k \<notin> unit_key ` fst ` set items \<Longrightarrow> map_of meta' k = map_of meta k"
  using assms
proof (induction items arbitrary: w cols meta)
  case Nil
  {
    case 1 then show ?case by simp
  next
    case 2 then show ?case by simp
  }
next
  case (Cons item items)
  {
    case 1
    from 1(2) obtain w1 cols1 meta1 where
      step: "schema_column E t (fst item, snd item) (w, cols, meta) = Inr (w1, cols1, meta1)" and
      rest: "schema_items E t items (w1, cols1, meta1) = Inr (w', cols', meta')"
      by (auto split: sum.splits)
    from 1(1) have ne: "name \<noteq> fst item" and ni: "name \<notin> fst ` set items" by auto
    from Cons.IH(1) [OF ni rest] schema_column_other(1,2) [OF step ne]
    show ?case by simp
  next
    case 2
    from 2(2) obtain w1 cols1 meta1 where
      step: "schema_column E t (fst item, snd item) (w, cols, meta) = Inr (w1, cols1, meta1)" and
      rest: "schema_items E t items (w1, cols1, meta1) = Inr (w', cols', meta')"
      by (auto split: sum.splits)
    from 2(1) have ne: "k \<noteq> unit_key (fst item)" and ni: "k \<notin> unit_key ` fst ` set items" by auto
    from Cons.IH(2) [OF ni rest] schema_column_other(3) [OF step ne]
    show ?case by simp
  }
qed

lemma schema_items_field:
  assumes "schema_items E t items (w, cols, meta) = Inr (w', cols', meta')"
      and "distinct (map fst items)"
      and "(name, fld) \<in> set items"
  shows "is_column_excluded w t name \<Longrightarrow>
           map_of (w_transforms w' t) name = map_of (w_transforms w t) name \<and>
           map_of cols' name = map_of cols name \<and>
           map_of meta' (unit_key name) = map_of meta (unit_key name)"
    and "\<not> is_column_excluded w t name \<Longrightarrow>
           \<exists>v. stripped E fld = Inr v \<and>
             map_of (w_transforms w' t) name =
               (case field_transform E fld of
                  Some tr \<Rightarrow> Some tr
                | None \<Rightarrow> map_of (w_transforms w t) name) \<and>
             map_of cols' name =
               (case column_for v of Some c \<Rightarrow> Some c | None \<Rightarrow> map_of cols name) \<and>
             map_of meta' (unit_key name) =
               (case field_unit fld of
                  Some u \<Rightarrow> Some (Str u)
                | None \<Rightarrow> map_of meta (unit_key name))"
  using assms
proof (induction items arbitrary: w cols meta)
  case Nil
  {
    case 1 then show ?case by simp
  next
    case 2 then show ?case by simp
  }
next
  case (Cons item items)
  have step_rest: "\<exists>w1 cols1 meta1.
      schema_column E t (fst item, snd item) (w, cols, meta) = Inr (w1, cols1, meta1) \<and>
      schema_items E t items (w1, cols1, meta1) = Inr (w', cols', meta')"
    if "schema_items E t (item # items) (w, cols, meta) = Inr (w', cols', meta')"
    for w cols meta
    using that by (auto split: sum.splits)
  {
    case 1
    from step_rest [OF 1(2)] obtain w1 cols1 meta1 where
      step: "schema_column E t (fst item, snd item) (w, cols, meta) = Inr (w1, cols1, meta1)" and
      rest: "schema_items E t items (w1, cols1, meta1) = Inr (w', cols', meta')"
      by blast
    from 1(3) have d: "distinct (map fst items)" and hd: "fst item \<notin> fst ` set items" by auto
    show ?case
    proof (cases "item = (name, fld)")
      case True
      then have ni: "name \<notin> fst ` set items" using hd by simp
      then have k: "unit_key name \<notin> unit_key ` fst ` set items" by (auto simp: image_iff)
      from schema_column_excluded_eq [OF step [unfolded True fst_conv snd_conv] 1(1)]
        schema_items_other(1) [OF rest ni] schema_items_other(2) [OF rest k]
      show ?thesis by simp
    next
      case False
      with 1(4) have mem: "(name, fld) \<in> set items" by simp
      then have ne: "name \<noteq> fst item" using hd by (auto simp: image_iff)
      have ex: "is_column_excluded w1 t name"
        using 1(1) schema_column_excl_same [OF step] by simp
      from Cons.IH(1) [OF ex rest d mem] schema_column_other(1,2) [OF step ne]
        schema_column_other(3) [OF step, of "unit_key name"] ne
      show ?thesis by simp
    qed
  next
    case 2
    from step_rest [OF 2(2)] obtain w1 cols1 meta1 where
      step: "schema_column E t (fst item, snd item) (w, cols, meta) = Inr (w1, cols1, meta1)" and
      rest: "schema_items E t items (w1, cols1, meta1) = Inr (w', cols', meta')"
      by blast
    from 2(3) have d: "distinct (map fst items)" and hd: "fst item \<notin> fst ` set items" by auto
    show ?case
    proof (cases "item = (name, fld)")
      case True
      then have ni: "name \<notin> fst ` set items" using hd by simp
      then have k: "unit_key name \<notin> unit_key ` fst ` set items" by (auto simp: image_iff)
      from schema_column_result [OF step [unfolded True fst_conv snd_conv] 2(1)]
      obtain v where
        v: "stripped E fld = Inr v" and
        tr1: "w_transforms w1 t =
                (case field_transform E fld of
                   Some tr \<Rightarrow> AList.update name tr (w_transforms w t)
                 | None \<Rightarrow> w_transforms w t)" and
        c1: "cols1 = (case column_for v of Some c \<Rightarrow> AList.update name c cols | None \<Rightarrow> cols)" and
        m1: "meta1 =
               (case field_unit fld of
                  Some u \<Rightarrow> AList.update (unit_key name) (Str u) meta
                | None \<Rightarrow> meta)"
        by blast
      have "map_of (w_transforms w1 t) name =
              (case field_transform E fld of
                 Some tr \<Rightarrow> Some tr
               | None \<Rightarrow> map_of (w_transforms w t) name)"
        unfolding tr1 by (simp add: update_conv' split: option.splits)
      moreover have "map_of cols1 name =
              (case column_for v of Some c \<Rightarrow> Some c | None \<Rightarrow> map_of cols name)"
        unfolding c1 by (simp add: update_conv' split: option.splits)
      moreover have "map_of meta1 (unit_key name) =
              (case field_unit fld of
                 Some u \<Rightarrow> Some (Str u)
               | None \<Rightarrow> map_of meta (unit_key name))"
        unfolding m1 by (simp add: update_conv' split: option.splits)
      ultimately show ?thesis
        using v schema_items_other(1) [OF rest ni] schema_items_other(2) [OF rest k]
        by simp
    next
      case False
      with 2(4) have mem: "(name, fld) \<in> set items" by simp
      then have ne: "name \<noteq> fst item" using hd by (auto simp: image_iff)
      have ex: "\<not> is_column_excluded w1 t name"
        using 2(1) schema_column_excl_same [OF step] by simp
      from Cons.IH(2) [OF ex rest d mem] schema_column_other(1,2) [OF step ne]
        schema_column_other(3) [OF step, of "unit_key name"] ne
      show ?thesis by (simp cong: option.case_cong)
    qed
  }
qed

subsection \<open>Tables of the file\<close>

lemma tables_extended_refl: "tables_extended f f"
  by (simp add: tables_extended_def)

lemma tables_extended_trans:
  assumes "tables_extended f f1" and "tables_extended f1 f2"
  shows "tables_extended f f2"
  unfolding tables_extended_def
proof (intro allI impI)
  fix path tab
  assume "map_of (f_nodes f) path = Some tab"
  with assms(1) obtain tab1 rows1 where
    1: "map_of (f_nodes f1) path = Some tab1" "t_attrs tab1 = t_attrs tab"
       "t_description tab1 = t_description tab" "t_rows tab1 = t_rows tab @ rows1"
       "\<forall>row\<in>set rows1. map fst row = table_colnames tab"
    unfolding tables_extended_def by blast
  with assms(2) obtain tab2 rows2 where
    2: "map_of (f_nodes f2) path = Some tab2" "t_attrs tab2 = t_attrs tab1"
       "t_description tab2 = t_description tab1" "t_rows tab2 = t_rows tab1 @ rows2"
       "\<forall>row\<in>set rows2. map fst row = table_colnames tab1"
    unfolding tables_extended_def by blast
  have "table_colnames tab1 = table_colnames tab"
    using 1(3) by (simp add: table_colnames_def)
  with 1 2 have "map_of (f_nodes f2) path = Some tab2 \<and> t_attrs tab2 = t_attrs tab \<and>
           t_description tab2 = t_description tab \<and> t_rows tab2 = t_rows tab @ (rows1 @ rows2) \<and>
           (\<forall>row\<in>set (rows1 @ rows2). map fst row = table_colnames tab)"
    by auto
  then show "\<exists>tab' rows. map_of (f_nodes f2) path = Some tab' \<and> t_attrs tab' = t_attrs tab \<and>
           t_description tab' = t_description tab \<and> t_rows tab' = t_rows tab @ rows \<and>
           (\<forall>row\<in>set rows. map fst row = table_colnames tab)"
    by blast
qed

lemma table_row_keys: "map fst (table_row tab) = table_colnames tab"
  by (simp add: table_row_def table_colnames_def case_prod_beta comp_def)

lemma row_setitem_keys:
  assumes "row_setitem tab row k v = Inr row'" and "map fst row = table_colnames tab"
  shows "map fst row' = table_colnames tab"
proof -
  from assms(1) obtain col cell where
    c: "map_of (t_description tab) k = Some col" and r: "row' = AList.update k cell row"
    by (auto simp: row_setitem_def split: option.splits sum.splits)
  from c have "k \<in> set (table_colnames tab)"
    by (auto simp: table_colnames_def dest: map_of_SomeD intro: rev_image_eqI)
  with assms(2) r show ?thesis by (simp add: update_keys)
qed

lemma fill_row_keys:
  "fill_row w t tab c names row = Inr row' \<Longrightarrow> map fst row = table_colnames tab \<Longrightarrow>
   map fst row' = table_colnames tab"
proof (induction names arbitrary: row)
  case Nil
  then show ?case by simp
next
  case (Cons k names)
  from Cons.prems(1) obtain v v' row1 where
    "row_setitem tab row k v' = Inr row1" and "fill_row w t tab c names row1 = Inr row'"
    by (auto split: sum.splits)
  with Cons.IH Cons.prems(2) row_setitem_keys show ?case by blast
qed

lemma fill_rows_keys:
  "fill_rows w t tab cs row = Inr row' \<Longrightarrow> map fst row = table_colnames tab \<Longrightarrow>
   map fst row' = table_colnames tab"
proof (induction cs arbitrary: row)
  case Nil
  then show ?case by simp
next
  case (Cons c cs)
  from Cons.prems(1) obtain row1 where
    "fill_row w t tab c (filter (\<lambda>k. k \<in> set (table_colnames tab)) (container_keys c)) row = Inr row1"
    and "fill_rows w t tab cs row1 = Inr row'"
    by (auto split: sum.splits)
  with Cons.IH Cons.prems(2) fill_row_keys show ?case by blast
qed

lemma map_of_update_nodes:
  "map_of (map (\<lambda>(p, tab). if p = path then (p, g tab) else (p, tab)) nodes) q =
     (if q = path then map_option g (map_of nodes q) else map_of nodes q)"
  by (induction nodes) auto

lemma update_node_lookup:
  "map_of (f_nodes (update_node f path g)) q =
     (if q = path then map_option g (map_of (f_nodes f) q) else map_of (f_nodes f) q)"
  by (simp add: update_node_def map_of_update_nodes)

lemma tables_extended_append_row:
  assumes "map_of (f_nodes f) path = Some tab" and "map fst row = table_colnames tab"
  shows "tables_extended f (update_node f path (\<lambda>tab. tab\<lparr>t_rows := t_rows tab @ [row]\<rparr>))"
  using assms by (auto simp: tables_extended_def update_node_lookup)

lemma append_row_effect:
  assumes "append_row w t cs = Inr w1"
  shows "\<exists>path tab row. w_tables w t = Some path \<and> map_of (f_nodes (w_h5file w)) path = Some tab \<and>
           f_isopen (w_h5file w) \<and>
           fill_rows w t tab cs (table_row tab) = Inr row \<and> map fst row = table_colnames tab \<and>
           w1 = w\<lparr>w_h5file := update_node (w_h5file w) path (\<lambda>tab. tab\<lparr>t_rows := t_rows tab @ [row]\<rparr>)\<rparr>"
proof -
  from assms obtain path tab row where
    p: "w_tables w t = Some path" and g: "get_node (w_h5file w) path = Inr tab" and
    f: "fill_rows w t tab cs (table_row tab) = Inr row" and
    w1: "w1 = w\<lparr>w_h5file := update_node (w_h5file w) path (\<lambda>tab. tab\<lparr>t_rows := t_rows tab @ [row]\<rparr>)\<rparr>"
    by (auto simp: append_row_def split: option.splits sum.splits)
  from g have "map_of (f_nodes (w_h5file w)) path = Some tab" and "f_isopen (w_h5file w)"
    by (auto simp: get_node_def split: if_splits option.splits)
  with p f w1 fill_rows_keys [OF f table_row_keys] show ?thesis by blast
qed

lemma map_of_Some_key: "map_of xs k = Some v \<Longrightarrow> k \<in> fst ` set xs"
  by (force dest: map_of_SomeD)

lemma tables_extended_create:
  assumes "create_table f g name title d = Inr (f', path)"
  shows "tables_extended f (update_node f' path h)"
  using assms
  by (auto simp: create_table_def tables_extended_def update_node_lookup
           split: if_splits dest: map_of_Some_key)

subsection \<open>The effect of a write\<close>

lemma update_node_new:
  assumes "path \<notin> fst ` set (f_nodes f)"
  shows "update_node (f\<lparr>f_nodes := f_nodes f @ [(path, tab)]\<rparr>) path g =
           f\<lparr>f_nodes := f_nodes f @ [(path, g tab)]\<rparr>"
proof -
  have "map (\<lambda>(p, tab). if p = path then (p, g tab) else (p, tab)) (f_nodes f) = f_nodes f"
    using assms by (intro map_idI) (auto simp: image_iff)
  then show ?thesis by (simp add: update_node_def)
qed

lemma tables_extended_new:
  assumes "path \<notin> fst ` set (f_nodes f)"
  shows "tables_extended f (f\<lparr>f_nodes := f_nodes f @ [(path, tab)]\<rparr>)"
  using assms by (auto simp: tables_extended_def map_add_def dest: map_of_Some_key)

lemma setup_new_table_effect:
  assumes "setup_new_table E w t cs = Inr w1"
  shows "\<exists>wS cols meta.
      schema_containers E t cs (w\<lparr>w_log := w_log w @ [Initializing t]\<rparr>, [], []) = Inr (wS, cols, meta) \<and>
      node_path (w_group w) t \<notin> fst ` set (f_nodes (w_h5file w)) \<and> f_isopen (w_h5file w) \<and>
      w1 = wS\<lparr>w_schemas := (w_schemas w)(t := Some cols),
              w_h5file := (w_h5file w)\<lparr>f_nodes := f_nodes (w_h5file w) @
                 [(node_path (w_group w) t,
                   \<lparr>t_title = ''Storage of '' @ join '','' (map c_class cs), t_description = cols,
                     t_attrs = header_attrs E cs meta, t_rows = []\<rparr>)]\<rparr>,
              w_tables := (w_tables w)(t := Some (node_path (w_group w) t))\<rparr>"
proof -
  let ?w0 = "w\<lparr>w_log := w_log w @ [Initializing t]\<rparr>"
  from assms obtain wS cols meta where
    sc: "schema_containers E t cs (?w0, [], []) = Inr (wS, cols, meta)"
    by (auto simp: setup_new_table_def create_hdf5_table_schema_def split: sum.splits prod.splits)
  from schema_containers_frame [OF sc] have fr: "schema_frame t ?w0 wS" .
  then have same: "w_schemas wS = w_schemas w" "w_h5file wS = w_h5file w" "w_group wS = w_group w"
    "w_tables wS = w_tables w"
    by (simp_all add: schema_frame_def)
  from assms sc same obtain f path where
    ct: "create_table (w_h5file w) (w_group w) t (''Storage of '' @ join '','' (map c_class cs)) cols
           = Inr (f, path)" and
    w1: "w1 = wS\<lparr>w_schemas := (w_schemas w)(t := Some cols),
              w_h5file := update_node f path
                 (\<lambda>tab. tab\<lparr>t_attrs := dict_update (t_attrs tab)
                     (fold (\<lambda>c m. dict_update m (c_meta c)) cs
                        (AList.update ''CTAPIPE_VERSION'' (Str (ctapipe_version E)) meta))\<rparr>),
              w_tables := (w_tables w)(t := Some path)\<rparr>"
    by (auto simp: setup_new_table_def create_hdf5_table_schema_def
             split: sum.splits prod.splits)
  from ct have
    op: "f_isopen (w_h5file w)" and
    new: "node_path (w_group w) t \<notin> fst ` set (f_nodes (w_h5file w))" and
    p: "path = node_path (w_group w) t" and
    f: "f = (w_h5file w)\<lparr>f_nodes := f_nodes (w_h5file w) @
           [(node_path (w_group w) t,
             \<lparr>t_title = ''Storage of '' @ join '','' (map c_class cs), t_description = cols,
               t_attrs = [], t_rows = []\<rparr>)]\<rparr>"
    by (auto simp: create_table_def split: if_splits)
  have "w1 = wS\<lparr>w_schemas := (w_schemas w)(t := Some cols),
              w_h5file := (w_h5file w)\<lparr>f_nodes := f_nodes (w_h5file w) @
                 [(node_path (w_group w) t,
                   \<lparr>t_title = ''Storage of '' @ join '','' (map c_class cs), t_description = cols,
                     t_attrs = header_attrs E cs meta, t_rows = []\<rparr>)]\<rparr>,
              w_tables := (w_tables w)(t := Some (node_path (w_group w) t))\<rparr>"
    unfolding w1 f p by (simp add: update_node_new [OF new] header_attrs_def)
  with sc new op show ?thesis by blast
qed

lemma fill_row_transforms:
  "w_transforms w1 = w_transforms w2 \<Longrightarrow>
   fill_row w1 t tab c names row = fill_row w2 t tab c names row"
  by (induction names arbitrary: row) (simp_all add: apply_col_transform_def cong: sum.case_cong)

lemma fill_rows_transforms:
  "w_transforms w1 = w_transforms w2 \<Longrightarrow> fill_rows w1 t tab cs row = fill_rows w2 t tab cs row"
  by (induction cs arbitrary: row) (simp_all add: fill_row_transforms [of w1 w2] cong: sum.case_cong)

lemma first_write:
  assumes "w_schemas w t = None" and "HDF5TableWriter_write E w t cs = Inr w'"
  shows "\<exists>wS cols meta row.
      schema_containers E t cs (w\<lparr>w_log := w_log w @ [Initializing t]\<rparr>, [], []) = Inr (wS, cols, meta) \<and>
      node_path (w_group w) t \<notin> fst ` set (f_nodes (w_h5file w)) \<and> f_isopen (w_h5file w) \<and>
      fill_rows wS t (new_table E cs cols meta) cs (table_row (new_table E cs cols meta)) = Inr row \<and>
      map fst row = map fst cols \<and>
      w' = wS\<lparr>w_schemas := (w_schemas w)(t := Some cols),
              w_h5file := (w_h5file w)\<lparr>f_nodes := f_nodes (w_h5file w) @
                 [(node_path (w_group w) t, (new_table E cs cols meta)\<lparr>t_rows := [row]\<rparr>)]\<rparr>,
              w_tables := (w_tables w)(t := Some (node_path (w_group w) t))\<rparr>"
proof -
  let ?p = "node_path (w_group w) t"
  from assms obtain w1 where
    s: "setup_new_table E w t cs = Inr w1" and a: "append_row w1 t cs = Inr w'"
    by (auto simp: HDF5TableWriter_write_def split: sum.splits)
  from setup_new_table_effect [OF s] obtain wS cols meta where
    sc: "schema_containers E t cs (w\<lparr>w_log := w_log w @ [Initializing t]\<rparr>, [], []) = Inr (wS, cols, meta)" and
    new: "?p \<notin> fst ` set (f_nodes (w_h5file w))" and op: "f_isopen (w_h5file w)" and
    w1: "w1 = wS\<lparr>w_schemas := (w_schemas w)(t := Some cols),
              w_h5file := (w_h5file w)\<lparr>f_nodes := f_nodes (w_h5file w) @
                 [(?p, new_table E cs cols meta)]\<rparr>,
              w_tables := (w_tables w)(t := Some ?p)\<rparr>"
    unfolding new_table_def by blast
  have look: "map_of (f_nodes (w_h5file w1)) ?p = Some (new_table E cs cols meta)"
    using new unfolding w1 by (simp add: map_add_def map_of_eq_None_iff [THEN iffD2])
  from append_row_effect [OF a] look obtain row where
    f: "fill_rows w1 t (new_table E cs cols meta) cs (table_row (new_table E cs cols meta)) = Inr row" and
    k: "map fst row = table_colnames (new_table E cs cols meta)" and
    w': "w' = w1\<lparr>w_h5file := update_node (w_h5file w1) ?p (\<lambda>tab. tab\<lparr>t_rows := t_rows tab @ [row]\<rparr>)\<rparr>"
    unfolding w1 by auto
  have tr: "w_transforms w1 = w_transforms wS" unfolding w1 by simp
  have "w' = wS\<lparr>w_schemas := (w_schemas w)(t := Some cols),
              w_h5file := (w_h5file w)\<lparr>f_nodes := f_nodes (w_h5file w) @
                 [(?p, (new_table E cs cols meta)\<lparr>t_rows := [row]\<rparr>)]\<rparr>,
              w_tables := (w_tables w)(t := Some ?p)\<rparr>"
    unfolding w' w1 by (simp add: update_node_new [OF new] new_table_def)
  moreover have "map fst row = map fst cols"
    using k by (simp add: table_colnames_def new_table_def)
  ultimately show ?thesis
    using sc new op f fill_rows_transforms [OF tr] by auto
qed

lemma later_write:
  assumes "w_schemas w t \<noteq> None" and "HDF5TableWriter_write E w t cs = Inr w'"
  shows "\<exists>path tab row. w_tables w t = Some path \<and> map_of (f_nodes (w_h5file w)) path = Some tab \<and>
           f_isopen (w_h5file w) \<and>
           fill_rows w t tab cs (table_row tab) = Inr row \<and> map fst row = table_colnames tab \<and>
           w' = w\<lparr>w_h5file := update_node (w_h5file w) path (\<lambda>tab. tab\<lparr>t_rows := t_rows tab @ [row]\<rparr>)\<rparr>"
proof -
  from assms have "append_row w t cs = Inr w'"
    by (auto simp: HDF5TableWriter_write_def)
  then show ?thesis by (rule append_row_effect)
qed

lemma write_step:
  assumes "HDF5TableWriter_write E w t2 cs = Inr w1"
  shows "count_list (w_log w1) (Initializing t) =
           count_list (w_log w) (Initializing t) + (if w_schemas w t2 = None \<and> t2 = t then 1 else 0)"
    and "w_schemas w t2 \<noteq> None \<Longrightarrow> w_schemas w1 = w_schemas w"
    and "w_schemas w t2 = None \<Longrightarrow> \<exists>cols. w_schemas w1 = (w_schemas w)(t2 := Some cols)"
    and "tables_extended (w_h5file w) (w_h5file w1)"
    and "t \<noteq> t2 \<or> w_schemas w t2 \<noteq> None \<Longrightarrow> w_tables w1 t = w_tables w t"
    and "t \<noteq> t2 \<or> w_schemas w t2 \<noteq> None \<Longrightarrow> w_transforms w1 t = w_transforms w t"
proof -
  have "count_list (w_log w1) (Initializing t) =
           count_list (w_log w) (Initializing t) + (if w_schemas w t2 = None \<and> t2 = t then 1 else 0) \<and>
        (w_schemas w t2 \<noteq> None \<longrightarrow> w_schemas w1 = w_schemas w) \<and>
        (w_schemas w t2 = None \<longrightarrow> (\<exists>cols. w_schemas w1 = (w_schemas w)(t2 := Some cols))) \<and>
        tables_extended (w_h5file w) (w_h5file w1) \<and>
        (t \<noteq> t2 \<or> w_schemas w t2 \<noteq> None \<longrightarrow> w_tables w1 t = w_tables w t) \<and>
        (t \<noteq> t2 \<or> w_schemas w t2 \<noteq> None \<longrightarrow> w_transforms w1 t = w_transforms w t)"
  proof (cases "w_schemas w t2 = None")
    case True
    from first_write [OF True assms] obtain wS cols meta row where
      sc: "schema_containers E t2 cs (w\<lparr>w_log := w_log w @ [Initializing t2]\<rparr>, [], []) = Inr (wS, cols, meta)" and
      new: "node_path (w_group w) t2 \<notin> fst ` set (f_nodes (w_h5file w))" and
      w1: "w1 = wS\<lparr>w_schemas := (w_schemas w)(t2 := Some cols),
              w_h5file := (w_h5file w)\<lparr>f_nodes := f_nodes (w_h5file w) @
                 [(node_path (w_group w) t2, (new_table E cs cols meta)\<lparr>t_rows := [row]\<rparr>)]\<rparr>,
              w_tables := (w_tables w)(t2 := Some (node_path (w_group w) t2))\<rparr>"
      by blast
    from schema_containers_frame [OF sc]
    have fr: "schema_frame t2 (w\<lparr>w_log := w_log w @ [Initializing t2]\<rparr>) wS" .
    show ?thesis
      using True fr tables_extended_new [OF new] unfolding w1 schema_frame_def by auto
  next
    case False
    from later_write [OF False assms] obtain path tab row where
      "map_of (f_nodes (w_h5file w)) path = Some tab" and "map fst row = table_colnames tab" and
      "w1 = w\<lparr>w_h5file := update_node (w_h5file w) path (\<lambda>tab. tab\<lparr>t_rows := t_rows tab @ [row]\<rparr>)\<rparr>"
      by blast
    with False tables_extended_append_row show ?thesis by auto
  qed
  then show "count_list (w_log w1) (Initializing t) =
           count_list (w_log w) (Initializing t) + (if w_schemas w t2 = None \<and> t2 = t then 1 else 0)"
    and "w_schemas w t2 \<noteq> None \<Longrightarrow> w_schemas w1 = w_schemas w"
    and "w_schemas w t2 = None \<Longrightarrow> \<exists>cols. w_schemas w1 = (w_schemas w)(t2 := Some cols)"
    and "tables_extended (w_h5file w) (w_h5file w1)"
    and "t \<noteq> t2 \<or> w_schemas w t2 \<noteq> None \<Longrightarrow> w_tables w1 t = w_tables w t"
    and "t \<noteq> t2 \<or> w_schemas w t2 \<noteq> None \<Longrightarrow> w_transforms w1 t = w_transforms w t"
    by blast+
qed

lemma write_calls_effect:
  assumes "write_calls E w calls = Inr w'"
  shows "count_list (w_log w') (Initializing t) =
           count_list (w_log w) (Initializing t) +
             (if w_schemas w t = None \<and> t \<in> fst ` set calls then 1 else 0)
         \<and> (\<forall>s. w_schemas w t = Some s \<longrightarrow>
               w_schemas w' t = Some s \<and> w_transforms w' t = w_transforms w t \<and>
               w_tables w' t = w_tables w t)
         \<and> tables_extended (w_h5file w) (w_h5file w')"
  using assms
proof (induction calls arbitrary: w)
  case Nil
  then show ?case by (simp add: tables_extended_refl)
next
  case (Cons call calls)
  from Cons.prems obtain w1 where
    step: "HDF5TableWriter_write E w (fst call) (snd call) = Inr w1" and
    rest: "write_calls E w1 calls = Inr w'"
    by (auto split: sum.splits)
  note ih = Cons.IH [OF rest]
  note st = write_step [OF step]
  show ?case
  proof (cases "w_schemas w (fst call) = None")
    case True
    then obtain cols where s1: "w_schemas w1 = (w_schemas w)(fst call := Some cols)"
      using st(3) by blast
    show ?thesis
      using ih st(1) st(4) st(5) st(6) True s1
      by (auto intro: tables_extended_trans)
  next
    case False
    then have s1: "w_schemas w1 = w_schemas w" using st(2) by blast
    show ?thesis
      using ih st(1) st(4) st(5) st(6) False s1
      by (auto intro: tables_extended_trans)
  qed
qed

subsection \<open>The columns of a derived schema\<close>

lemma schema_items_append:
  "schema_items E t (xs @ ys) st =
     (case schema_items E t xs st of Inl e \<Rightarrow> Inl e | Inr st' \<Rightarrow> schema_items E t ys st')"
  by (induction xs arbitrary: st) (simp_all split: sum.splits)

lemma schema_containers_concat:
  "schema_containers E t cs st = schema_items E t (concat (map c_fields cs)) st"
  by (induction cs arbitrary: st) (simp_all add: schema_items_append cong: sum.case_cong)

lemma has_column_iff: "stripped E fld = Inr v \<Longrightarrow> has_column E fld \<longleftrightarrow> column_for v \<noteq> None"
  by (simp add: has_column_def)

lemma schema_column_keys:
  assumes "schema_column E t (name, fld) (w, cols, meta) = Inr (w', cols', meta')"
  shows "fst ` set cols' =
           fst ` set cols \<union> (if \<not> is_column_excluded w t name \<and> has_column E fld then {name} else {})"
proof (cases "is_column_excluded w t name")
  case True
  with schema_column_excluded_eq [OF assms] show ?thesis by simp
next
  case False
  from schema_column_result [OF assms False] obtain v where
    v: "stripped E fld = Inr v" and
    c: "cols' = (case column_for v of Some c \<Rightarrow> AList.update name c cols | None \<Rightarrow> cols)"
    by blast
  show ?thesis
    using False has_column_iff [OF v] unfolding c
    by (cases "column_for v") (simp_all add: dom_update)
qed

lemma schema_items_keys:
  "schema_items E t items (w, cols, meta) = Inr (w', cols', meta') \<Longrightarrow>
   fst ` set cols' =
     fst ` set cols \<union>
     {name. \<exists>fld. (name, fld) \<in> set items \<and> \<not> is_column_excluded w t name \<and> has_column E fld}"
proof (induction items arbitrary: w cols meta)
  case Nil
  then show ?case by simp
next
  case (Cons item items)
  from Cons.prems obtain w1 cols1 meta1 where
    step: "schema_column E t (fst item, snd item) (w, cols, meta) = Inr (w1, cols1, meta1)" and
    rest: "schema_items E t items (w1, cols1, meta1) = Inr (w', cols', meta')"
    by (auto split: sum.splits)
  have ex: "is_column_excluded w1 t = is_column_excluded w t"
    using schema_column_excl_same [OF step] .
  have "fst ` set cols' = fst ` set cols1 \<union>
     {name. \<exists>fld. (name, fld) \<in> set items \<and> \<not> is_column_excluded w t name \<and> has_column E fld}"
    using Cons.IH [OF rest] unfolding ex .
  also have "fst ` set cols1 = fst ` set cols \<union>
       (if \<not> is_column_excluded w t (fst item) \<and> has_column E (snd item) then {fst item} else {})"
    by (rule schema_column_keys [OF step])
  finally show ?case
    by (cases item) (auto split: if_splits)
qed

lemma first_match_append:
  "first_match (ps @ [p]) name \<longleftrightarrow> first_match ps name \<or> re_match p name"
  by (induction ps) simp_all

lemma is_column_excluded_exclude:
  "is_column_excluded (exclude w t p) t name \<longleftrightarrow> is_column_excluded w t name \<or> re_match p name"
  by (simp add: is_column_excluded_def exclude_def first_match_append)

lemma is_column_excluded_log [simp]:
  "is_column_excluded (w\<lparr>w_log := l\<rparr>) = is_column_excluded w"
  by (simp add: is_column_excluded_def fun_eq_iff)

lemma exclusion_first_write:
  assumes "w_schemas w t = None"
      and "HDF5TableWriter_write E (exclude w t pattern) t cs = Inr w1"
  shows "\<exists>tab row. map_of (f_nodes (w_h5file w1)) (node_path (w_group w) t) = Some tab \<and>
           w_tables w1 t = Some (node_path (w_group w) t) \<and>
           w_schemas w1 t = Some (t_description tab) \<and> t_rows tab = [row] \<and>
           map fst row = table_colnames tab \<and>
           set (table_colnames tab) =
             {name. \<exists>c\<in>set cs. \<exists>fld. (name, fld) \<in> set (c_fields c) \<and>
                \<not> (is_column_excluded w t name \<or> re_match pattern name) \<and> has_column E fld}"
proof -
  let ?w0 = "exclude w t pattern"
  have none: "w_schemas ?w0 t = None" and g: "w_group ?w0 = w_group w"
    using assms(1) by (simp_all add: exclude_def)
  from first_write [OF none assms(2)] obtain wS cols meta row where
    sc: "schema_containers E t cs (?w0\<lparr>w_log := w_log ?w0 @ [Initializing t]\<rparr>, [], []) = Inr (wS, cols, meta)" and
    new: "node_path (w_group w) t \<notin> fst ` set (f_nodes (w_h5file ?w0))" and
    k: "map fst row = map fst cols" and
    w1: "w1 = wS\<lparr>w_schemas := (w_schemas ?w0)(t := Some cols),
              w_h5file := (w_h5file ?w0)\<lparr>f_nodes := f_nodes (w_h5file ?w0) @
                 [(node_path (w_group w) t, (new_table E cs cols meta)\<lparr>t_rows := [row]\<rparr>)]\<rparr>,
              w_tables := (w_tables ?w0)(t := Some (node_path (w_group w) t))\<rparr>"
    unfolding g by blast
  let ?tab = "(new_table E cs cols meta)\<lparr>t_rows := [row]\<rparr>"
  have look: "map_of (f_nodes (w_h5file w1)) (node_path (w_group w) t) = Some ?tab"
    using new unfolding w1 by (simp add: map_add_def map_of_eq_None_iff [THEN iffD2])
  have keys: "fst ` set cols =
     {name. \<exists>fld. (name, fld) \<in> set (concat (map c_fields cs)) \<and>
        \<not> (is_column_excluded w t name \<or> re_match pattern name) \<and> has_column E fld}"
    using schema_items_keys [OF sc [unfolded schema_containers_concat]]
    by (simp add: is_column_excluded_exclude)
  have "set (table_colnames ?tab) =
             {name. \<exists>c\<in>set cs. \<exists>fld. (name, fld) \<in> set (c_fields c) \<and>
                \<not> (is_column_excluded w t name \<or> re_match pattern name) \<and> has_column E fld}"
    using keys by (auto simp: table_colnames_def new_table_def)
  moreover have "w_tables w1 t = Some (node_path (w_group w) t)"
    and "w_schemas w1 t = Some (t_description ?tab)" and "t_rows ?tab = [row]"
    and "map fst row = table_colnames ?tab"
    using k unfolding w1 by (simp_all add: new_table_def table_colnames_def)
  ultimately show ?thesis using look by blast
qed

text \<open>The definitions that evaluate a write on a concrete input.\<close>

lemmas writer_eval =
  HDF5TableWriter_write_def setup_new_table_def create_hdf5_table_schema_def schema_column_def
  quantity_branch_def array_branch_def scalar_branch_def is_column_excluded_def
  add_column_transform_def apply_col_transform_def append_row_def create_table_def get_node_def
  update_node_def node_path_def dict_update_def table_row_def table_colnames_def
  container_keys_def container_getitem_def row_setitem_def set_cell_def default_cell_def
  tr_convert_and_strip_unit_def quantity_to_def quantity_value_def quantity_unit_def
  tr_time_to_float_def unit_key_def PYTABLES_TYPE_MAP_def HDF5TableWriter_def
  wrap_def truncate_def exclude_def broadcast_def float_cell_def int_cell_def float_name_def

subsection \<open>The schema is derived once\<close>

text \<open>
  C2. In a run of \<open>write\<close> calls on one writer, the schema of a table is derived (the
  entry \<open>Initializing t\<close> of the log is written by \<open>_setup_new_table\<close> just before the
  derivation) once if the table had no schema and is written to, and not at all otherwise;
  a schema that exists stays as it is, with the table's transforms and handle; every
  table of the file keeps its columns and header attributes and only gains rows. A
  \<open>write\<close> to a table that has a schema changes nothing in the writer but one table of
  the file, which gets one more row.
\<close>

theorem schema_derived_once:
  assumes "write_calls E w calls = Inr w'"
  shows "count_list (w_log w') (Initializing t) =
           count_list (w_log w) (Initializing t) +
             (if w_schemas w t = None \<and> t \<in> fst ` set calls then 1 else 0)
         \<and> (\<forall>s. w_schemas w t = Some s \<longrightarrow>
               w_schemas w' t = Some s \<and> w_transforms w' t = w_transforms w t \<and>
               w_tables w' t = w_tables w t)
         \<and> tables_extended (w_h5file w) (w_h5file w')
         \<and> (\<forall>cs w1. w_schemas w t \<noteq> None \<and> HDF5TableWriter_write E w t cs = Inr w1 \<longrightarrow>
               (\<exists>path tab row. w_tables w t = Some path \<and>
                  map_of (f_nodes (w_h5file w)) path = Some tab \<and>
                  map fst row = table_colnames tab \<and>
                  w1 = w\<lparr>w_h5file := update_node (w_h5file w) path
                                         (\<lambda>tab. tab\<lparr>t_rows := t_rows tab @ [row]\<rparr>)\<rparr>))"
proof -
  have "\<exists>path tab row. w_tables w t = Some path \<and>
                  map_of (f_nodes (w_h5file w)) path = Some tab \<and>
                  map fst row = table_colnames tab \<and>
                  w1 = w\<lparr>w_h5file := update_node (w_h5file w) path
                                         (\<lambda>tab. tab\<lparr>t_rows := t_rows tab @ [row]\<rparr>)\<rparr>"
    if "w_schemas w t \<noteq> None" and "HDF5TableWriter_write E w t cs = Inr w1" for cs w1
    using later_write [OF that] by blast
  with write_calls_effect [OF assms, of t] show ?thesis by blast
qed

lemma ex1: "\<exists>w'. write_calls example_env (HDF5TableWriter ''g'')
     [(''events'', [event_record 1 7]), (''events'', [event_record 2 8]), (''events'', [event_record 3 9])] = Inr w'"
  by (simp add: writer_eval example_env_def event_record_def)

theorem schema_derived_once_witness:
  "\<exists>w'. write_calls example_env (HDF5TableWriter ''g'')
     [(''events'', [event_record 1 7]), (''events'', [event_record 2 8]), (''events'', [event_record 3 9])] = Inr w'
     \<and> count_list (w_log w') (Initializing ''events'') = 1"
proof -
  obtain w' where w': "write_calls example_env (HDF5TableWriter ''g'')
     [(''events'', [event_record 1 7]), (''events'', [event_record 2 8]), (''events'', [event_record 3 9])] = Inr w'"
    using ex1 by blast
  have "count_list (w_log w') (Initializing ''events'') = 1"
    using schema_derived_once [OF w', of "''events''"] by (simp add: HDF5TableWriter_def)
  with w' show ?thesis by blast
qed

subsection \<open>Excluded columns\<close>

text \<open>
  C3 (amended). A pattern is registered for a table that has no schema yet, and rows are
  then written to it. The table's columns are exactly the fields of the first records
  that no registered pattern matches at the start of the name and whose value has a
  column type (a quantity that converts to the required unit, an array or scalar that the
  type map knows, a timestamp); every row ever written has exactly these columns. So a
  field that the pattern matches is in neither the schema nor any row.
\<close>

theorem exclusion_schema:
  assumes "w_schemas w t = None"
      and "write_calls E (exclude w t pattern) ((t, cs) # calls) = Inr w'"
  shows "\<exists>tab. map_of (f_nodes (w_h5file w')) (node_path (w_group w) t) = Some tab \<and>
           w_schemas w' t = Some (t_description tab) \<and>
           (\<forall>row\<in>set (t_rows tab). map fst row = table_colnames tab) \<and>
           set (table_colnames tab) =
             {name. \<exists>c\<in>set cs. \<exists>fld. (name, fld) \<in> set (c_fields c) \<and>
                \<not> (is_column_excluded w t name \<or> re_match pattern name) \<and> has_column E fld} \<and>
           (\<forall>name. re_match pattern name \<longrightarrow>
              name \<notin> set (table_colnames tab) \<and> (\<forall>row\<in>set (t_rows tab). name \<notin> fst ` set row))"
proof -
  from assms(2) obtain w1 where
    first: "HDF5TableWriter_write E (exclude w t pattern) t cs = Inr w1" and
    rest: "write_calls E w1 calls = Inr w'"
    by (auto split: sum.splits)
  from exclusion_first_write [OF assms(1) first] obtain tab row where
    look: "map_of (f_nodes (w_h5file w1)) (node_path (w_group w) t) = Some tab" and
    sch: "w_schemas w1 t = Some (t_description tab)" and
    rows: "t_rows tab = [row]" and rk: "map fst row = table_colnames tab" and
    names: "set (table_colnames tab) =
             {name. \<exists>c\<in>set cs. \<exists>fld. (name, fld) \<in> set (c_fields c) \<and>
                \<not> (is_column_excluded w t name \<or> re_match pattern name) \<and> has_column E fld}"
    by blast
  from write_calls_effect [OF rest, of t] sch have
    sch': "w_schemas w' t = Some (t_description tab)" and
    ext: "tables_extended (w_h5file w1) (w_h5file w')"
    by simp_all
  from ext look obtain tab' more where
    look': "map_of (f_nodes (w_h5file w')) (node_path (w_group w) t) = Some tab'" and
    d: "t_description tab' = t_description tab" and
    r: "t_rows tab' = t_rows tab @ more" and
    mk: "\<forall>row\<in>set more. map fst row = table_colnames tab"
    unfolding tables_extended_def by blast
  have cn: "table_colnames tab' = table_colnames tab"
    using d by (simp add: table_colnames_def)
  have allrows: "\<forall>row\<in>set (t_rows tab'). map fst row = table_colnames tab'"
    using r rows rk mk cn by auto
  have excl: "name \<notin> set (table_colnames tab') \<and> (\<forall>row\<in>set (t_rows tab'). name \<notin> fst ` set row)"
    if "re_match pattern name" for name
  proof -
    from that names cn have n: "name \<notin> set (table_colnames tab')" by auto
    moreover have "name \<notin> fst ` set row" if "row \<in> set (t_rows tab')" for row
    proof -
      from allrows that have "fst ` set row = set (table_colnames tab')"
        by (metis set_map)
      with n show ?thesis by simp
    qed
    ultimately show ?thesis by blast
  qed
  from look' sch' d allrows names cn excl show ?thesis by auto
qed

text \<open>
  C3 as stated fails: the field \<open>label\<close> holds a string; no pattern matches its name, yet
  it is not in the schema.
\<close>

theorem exclusion_unmatched_field_absent:
  "\<not> re_match raw_pattern ''label'' \<and>
   schema_names (HDF5TableWriter_write example_env
      (exclude (HDF5TableWriter ''g'') ''t'' raw_pattern) ''t'' [raw_record]) ''t'' = Some [''x'']"
  by (simp add: writer_eval schema_names_def raw_pattern_def raw_record_def example_env_def)

lemma raw_run:
  "\<exists>w'. write_calls example_env (exclude (HDF5TableWriter ''g'') ''t'' raw_pattern)
           [(''t'', [raw_record]), (''t'', [raw_record])] = Inr w'"
  by (simp add: writer_eval raw_pattern_def raw_record_def example_env_def)

theorem exclusion_schema_witness:
  "re_match raw_pattern ''raw_x'' \<and>
   (\<exists>w' tab. write_calls example_env (exclude (HDF5TableWriter ''g'') ''t'' raw_pattern)
           [(''t'', [raw_record]), (''t'', [raw_record])] = Inr w' \<and>
        map_of (f_nodes (w_h5file w')) ''/g/t'' = Some tab \<and>
        set (table_colnames tab) = {''x''} \<and>
        ''raw_x'' \<notin> set (table_colnames tab))"
proof -
  obtain w' where run: "write_calls example_env (exclude (HDF5TableWriter ''g'') ''t'' raw_pattern)
           [(''t'', [raw_record]), (''t'', [raw_record])] = Inr w'"
    using raw_run by blast
  have none: "w_schemas (HDF5TableWriter ''g'') ''t'' = None"
    by (simp add: HDF5TableWriter_def)
  have m: "re_match raw_pattern ''raw_x''"
    by (simp add: raw_pattern_def)
  from exclusion_schema [OF none run] obtain tab where
    look: "map_of (f_nodes (w_h5file w')) (node_path (w_group (HDF5TableWriter ''g'')) ''t'') = Some tab" and
    names: "set (table_colnames tab) =
             {name. \<exists>c\<in>set [raw_record]. \<exists>fld. (name, fld) \<in> set (c_fields c) \<and>
                \<not> (is_column_excluded (HDF5TableWriter ''g'') ''t'' name \<or> re_match raw_pattern name) \<and>
                has_column example_env fld}" and
    ex: "\<forall>name. re_match raw_pattern name \<longrightarrow> name \<notin> set (table_colnames tab) \<and>
            (\<forall>row\<in>set (t_rows tab). name \<notin> fst ` set row)"
    by blast
  have "set (table_colnames tab) = {''x''}"
    unfolding names
    by (auto simp: raw_record_def raw_pattern_def has_column_def stripped_def column_for_def
          PYTABLES_TYPE_MAP_def is_column_excluded_def HDF5TableWriter_def)
  moreover have "''raw_x'' \<notin> set (table_colnames tab)" using ex m by blast
  moreover have "map_of (f_nodes (w_h5file w')) ''/g/t'' = Some tab"
    using look by (simp add: node_path_def HDF5TableWriter_def)
  ultimately show ?thesis using run m by blast
qed

subsection \<open>Fields without a column type\<close>

text \<open>
  A scalar, string or \<open>None\<close> whose type name the type map does not have is passed over:
  the derivation goes on with the same columns and metadata.
\<close>

lemma unsupported_scalar_skipped:
  assumes "\<not> is_column_excluded w t name"
      and "f_value fld = Num (Scalar n x) \<or> f_value fld = Str s \<or> f_value fld = NoneVal"
      and "map_of PYTABLES_TYPE_MAP (type_name (f_value fld)) = None"
  shows "schema_column E t (name, fld) (w, cols, meta) =
           Inr (w\<lparr>w_log := w_log w @ [AddedCol t name []]\<rparr>, cols, meta)"
  using assms
  by (auto simp: schema_column_def quantity_branch_def array_branch_def scalar_branch_def)

text \<open>An array whose dtype the type map does not have ends the derivation.\<close>

lemma unsupported_array_raises:
  assumes "\<not> is_column_excluded w t name"
      and "f_value fld = Num (NdArray dt sh xs)"
      and "map_of PYTABLES_TYPE_MAP dt = None"
  shows "schema_column E t (name, fld) (w, cols, meta) = Inl (KeyError dt)"
  using assms
  by (simp add: schema_column_def quantity_branch_def array_branch_def)

text \<open>
  C4. The claim holds for scalars and fails for arrays: the first write of a record with
  an array of dtype \<open>uint8\<close> raises \<open>KeyError\<close>, so that no field of the record is
  written.
\<close>

theorem unsupported_array_write_fails:
  "HDF5TableWriter_write example_env (HDF5TableWriter ''g'') ''t'' [image_record] =
     Inl (KeyError ''uint8'')"
  by (simp add: writer_eval image_record_def example_env_def)

subsection \<open>Quantities in the schema\<close>

lemma version_key_not_unit: "''CTAPIPE_VERSION'' \<noteq> unit_key name"
proof
  assume "''CTAPIPE_VERSION'' = unit_key name"
  then have "last ''CTAPIPE_VERSION'' = last (unit_key name)" by simp
  then show False by (simp add: unit_key_def)
qed

lemma fields_keys_concat:
  "map fst (concat (map c_fields cs)) = concat (map container_keys cs)"
  by (induction cs) (simp_all add: container_keys_def)

lemma stripped_quantity:
  assumes "f_value fld = Quantity p u" and "stripped E fld = Inr v"
  shows "\<exists>x. v = Num x \<and>
           (case f_unit fld of
              Some req_unit \<Rightarrow> quantity_to E (Quantity p u) req_unit = Inr (Quantity x req_unit)
            | None \<Rightarrow> x = p)"
proof (cases "f_unit fld")
  case None
  with assms show ?thesis by (simp add: stripped_def)
next
  case (Some req_unit)
  with assms have "tr_convert_and_strip_unit E (Quantity p u) req_unit = Inr v"
    by (simp add: stripped_def)
  then show ?thesis
    unfolding Some
    by (auto simp: tr_convert_and_strip_unit_def quantity_to_def quantity_value_def
             split: if_splits option.splits prod.splits)
qed

text \<open>
  C5. The derivation of a schema from records whose field names are all different, for a
  field that holds a quantity and is not excluded: the transform registered for the column
  converts to the required unit and strips it, or only strips the unit when no unit is
  required; the metadata returned for the header has under \<open><name>_UNIT\<close> the string of
  the required unit, or of the quantity's own unit; the column of the schema is the one
  the type map gives for the number \<open>x\<close> that is left once the unit is stripped.
\<close>

theorem quantity_field_schema:
  assumes "create_hdf5_table_schema E w t cs = Inr (w', meta)"
      and "distinct (concat (map container_keys cs))"
      and "c \<in> set cs" and "(name, fld) \<in> set (c_fields c)"
      and "f_value fld = Quantity p u"
      and "\<not> is_column_excluded w t name"
  shows "\<exists>x cols.
     map_of (w_transforms w' t) name =
       Some (case f_unit fld of
               Some req_unit \<Rightarrow> (\<lambda>q. tr_convert_and_strip_unit E q req_unit)
             | None \<Rightarrow> quantity_value) \<and>
     map_of meta (name @ ''_UNIT'') =
       Some (Str (case f_unit fld of Some req_unit \<Rightarrow> req_unit | None \<Rightarrow> u)) \<and>
     (case f_unit fld of
        Some req_unit \<Rightarrow> quantity_to E (Quantity p u) req_unit = Inr (Quantity x req_unit)
      | None \<Rightarrow> x = p) \<and>
     w_schemas w' t = Some cols \<and> map_of cols name = column_for (Num x)"
proof -
  from assms(1) obtain wS cols metaS where
    sc: "schema_items E t (concat (map c_fields cs)) (w, [], []) = Inr (wS, cols, metaS)" and
    w': "w' = wS\<lparr>w_schemas := (w_schemas wS)(t := Some cols)\<rparr>" and
    m: "meta = AList.update ''CTAPIPE_VERSION'' (Str (ctapipe_version E)) metaS"
    by (auto simp: create_hdf5_table_schema_def schema_containers_concat
             split: sum.splits prod.splits)
  have d: "distinct (map fst (concat (map c_fields cs)))"
    using assms(2) by (simp add: fields_keys_concat)
  have mem: "(name, fld) \<in> set (concat (map c_fields cs))"
    using assms(3,4) by auto
  from schema_items_field(2) [OF sc d mem assms(6)] obtain v where
    v: "stripped E fld = Inr v" and
    tr: "map_of (w_transforms wS t) name =
           (case field_transform E fld of Some tr \<Rightarrow> Some tr | None \<Rightarrow> map_of (w_transforms w t) name)" and
    col: "map_of cols name = (case column_for v of Some c \<Rightarrow> Some c | None \<Rightarrow> map_of [] name)" and
    mu: "map_of metaS (unit_key name) =
           (case field_unit fld of Some u \<Rightarrow> Some (Str u) | None \<Rightarrow> map_of [] (unit_key name))"
    by blast
  from stripped_quantity [OF assms(5) v] obtain x where
    x: "v = Num x" and
    conv: "(case f_unit fld of
              Some req_unit \<Rightarrow> quantity_to E (Quantity p u) req_unit = Inr (Quantity x req_unit)
            | None \<Rightarrow> x = p)"
    by blast
  have 1: "map_of (w_transforms w' t) name =
       Some (case f_unit fld of
               Some req_unit \<Rightarrow> (\<lambda>q. tr_convert_and_strip_unit E q req_unit)
             | None \<Rightarrow> quantity_value)"
    using tr assms(5) unfolding w' by (simp add: field_transform_def)
  have 2: "map_of meta (name @ ''_UNIT'') =
       Some (Str (case f_unit fld of Some req_unit \<Rightarrow> req_unit | None \<Rightarrow> u))"
    using mu assms(5) version_key_not_unit [of name] unfolding m
    by (simp add: field_unit_def update_conv' unit_key_def)
  have 3: "w_schemas w' t = Some cols" unfolding w' by simp
  have 4: "map_of cols name = column_for (Num x)"
    using col unfolding x by (simp split: option.splits)
  from 1 2 conv 3 4 show ?thesis by blast
qed

lemma length_schema:
  "\<exists>w' meta. create_hdf5_table_schema example_env (HDF5TableWriter ''g'') ''lengths''
      [length_record 250] = Inr (w', meta)"
  by (simp add: writer_eval length_record_def example_env_def)

theorem quantity_field_schema_witness:
  "\<exists>w' meta cols. create_hdf5_table_schema example_env (HDF5TableWriter ''g'') ''lengths''
      [length_record 250] = Inr (w', meta) \<and>
     map_of meta ''x_UNIT'' = Some (Str ''m'') \<and>
     w_schemas w' ''lengths'' = Some cols \<and>
     map_of cols ''x'' = Some \<lparr>col_type = Float64Col, col_shape = []\<rparr>"
proof -
  obtain w' meta where run: "create_hdf5_table_schema example_env (HDF5TableWriter ''g'') ''lengths''
      [length_record 250] = Inr (w', meta)"
    using length_schema by blast
  have d: "distinct (concat (map container_keys [length_record 250]))"
    by (simp add: container_keys_def length_record_def)
  have mem: "(''x'', \<lparr>f_value = Quantity (Scalar ''float64'' (F 250)) ''cm'', f_unit = Some ''m''\<rparr>)
      \<in> set (c_fields (length_record 250))"
    by (simp add: length_record_def)
  have ne: "\<not> is_column_excluded (HDF5TableWriter ''g'') ''lengths'' ''x''"
    by (simp add: is_column_excluded_def HDF5TableWriter_def)
  from quantity_field_schema [OF run d _ mem _ ne, of "Scalar ''float64'' (F 250)" "''cm''"]
  obtain x cols where
    "map_of meta (''x'' @ ''_UNIT'') = Some (Str ''m'')" and
    "quantity_to example_env (Quantity (Scalar ''float64'' (F 250)) ''cm'') ''m'' = Inr (Quantity x ''m'')" and
    "w_schemas w' ''lengths'' = Some cols" and "map_of cols ''x'' = column_for (Num x)"
    by auto
  then have "map_of meta ''x_UNIT'' = Some (Str ''m'') \<and> w_schemas w' ''lengths'' = Some cols \<and>
     map_of cols ''x'' = Some \<lparr>col_type = Float64Col, col_shape = []\<rparr>"
    by (auto simp: quantity_to_def example_env_def column_for_def PYTABLES_TYPE_MAP_def
          float_name_def)
  with run show ?thesis by blast
qed

subsection \<open>Generators\<close>

text \<open>
  A loop over the generator that \<open>read\<close> returns sets the table up, if the reader has
  not got it, and reads the rows from the first on.
\<close>

lemma generator_run_turn:
  assumes "\<And>g'. g_position g' = Suspended tab k \<Longrightarrow> g_table_name g' = g_table_name g \<Longrightarrow>
             generator_run E r g' =
               (case read_loop r (g_table_name g) tab (Suc k) (g_container g') of
                  (ys, out) \<Rightarrow> (r, ys, out))"
  shows "(case loop_turn r g tab k of
            (g', Yielded) \<Rightarrow>
              (case generator_run E r g' of (r'', ys, outcome) \<Rightarrow> (r'', g_container g' # ys, outcome))
          | (g', StopIteration) \<Rightarrow> (r, [], None)
          | (g', Raised e) \<Rightarrow> (r, [], Some e)) =
         (case read_loop r (g_table_name g) tab k (g_container g) of (ys, out) \<Rightarrow> (r, ys, out))"
proof (cases "table_getitem (r_h5file r) tab k")
  case (Row row)
  show ?thesis
  proof (cases "read_row r (g_table_name g) row (r_cols_to_read r (g_table_name g)) (g_container g)")
    case (Inl e)
    with Row show ?thesis by (simp add: loop_turn_def)
  next
    case (Inr c')
    let ?g = "g\<lparr>g_container := c', g_position := Suspended tab k\<rparr>"
    have "generator_run E r ?g =
            (case read_loop r (g_table_name g) tab (Suc k) c' of (ys, out) \<Rightarrow> (r, ys, out))"
      using assms [of ?g] by simp
    with Row Inr show ?thesis by (simp add: loop_turn_def split: prod.splits)
  qed
qed (simp_all add: loop_turn_def)

lemma generator_run_suspended:
  "g_position g = Suspended tab n \<Longrightarrow>
   generator_run E r g =
     (case read_loop r (g_table_name g) tab (Suc n) (g_container g) of (ys, out) \<Rightarrow> (r, ys, out))"
proof (induction "length (t_rows tab) - n" arbitrary: n g rule: less_induct)
  case less
  show ?case
  proof (cases "Suc n < length (t_rows tab)")
    case True
    have "(case loop_turn r g tab (Suc n) of
            (g', Yielded) \<Rightarrow>
              (case generator_run E r g' of (r'', ys, outcome) \<Rightarrow> (r'', g_container g' # ys, outcome))
          | (g', StopIteration) \<Rightarrow> (r, [], None)
          | (g', Raised e) \<Rightarrow> (r, [], Some e)) =
         (case read_loop r (g_table_name g) tab (Suc n) (g_container g) of (ys, out) \<Rightarrow> (r, ys, out))"
    proof (rule generator_run_turn)
      fix g' :: generator
      assume a: "g_position g' = Suspended tab (Suc n)" "g_table_name g' = g_table_name g"
      have "length (t_rows tab) - Suc n < length (t_rows tab) - n" using True by simp
      with less.hyps [of "Suc n" g'] a
      show "generator_run E r g' =
               (case read_loop r (g_table_name g) tab (Suc (Suc n)) (g_container g') of
                  (ys, out) \<Rightarrow> (r, ys, out))"
        by simp
    qed
    then show ?thesis
      using less.prems
      by (subst generator_run.simps) (simp add: generator_next_def split: prod.splits)
  next
    case False
    then have "table_getitem (r_h5file r) tab (Suc n) =
        (if \<not> f_isopen (r_h5file r) then Failed ClosedNodeError else IndexError)"
      by (simp add: table_getitem_def)
    then show ?thesis
      using less.prems
      by (subst generator_run.simps) (simp add: generator_next_def loop_turn_def)
  qed
qed

lemma generator_run_read:
  "generator_run E r (HDF5TableReader_read t c) = read_all E r t c"
proof -
  let ?g = "HDF5TableReader_read t c"
  have turn: "(case loop_turn r1 (?g\<lparr>g_container := c1\<rparr>) tab 0 of
            (g', Yielded) \<Rightarrow>
              (case generator_run E r1 g' of (r'', ys, outcome) \<Rightarrow> (r'', g_container g' # ys, outcome))
          | (g', StopIteration) \<Rightarrow> (r1, [], None)
          | (g', Raised e) \<Rightarrow> (r1, [], Some e)) =
         (case read_loop r1 t tab 0 c1 of (ys, out) \<Rightarrow> (r1, ys, out))" for r1 c1 tab
    using generator_run_turn [of tab 0 "?g\<lparr>g_container := c1\<rparr>" E r1]
    by (simp add: generator_run_suspended HDF5TableReader_read_def)
  show ?thesis
  proof (cases "r_tables r t")
    case None
    show ?thesis
    proof (cases "setup_table E r t c")
      case (Inl e)
      with None show ?thesis
        by (subst generator_run.simps)
           (simp add: generator_next_def HDF5TableReader_read_def read_all_def)
    next
      case (Inr x)
      obtain r1 c1 tab where x: "x = (r1, c1, tab)" by (cases x)
      from turn [of r1 c1 tab] None Inr x show ?thesis
        by (subst generator_run.simps)
           (simp add: generator_next_def HDF5TableReader_read_def read_all_def split: prod.splits)
    qed
  next
    case (Some tab)
    from turn [of r c tab] Some show ?thesis
      by (subst generator_run.simps)
         (simp add: generator_next_def HDF5TableReader_read_def read_all_def split: prod.splits)
  qed
qed

subsection \<open>Reading rows\<close>

lemma returns_iff: "returns res \<longleftrightarrow> (\<exists>x. res = Inr x)"
  by (cases res) (simp_all add: returns_def)

lemma container_setitem_effect:
  assumes "container_setitem c k v = Inr c'"
  shows "container_keys c' = container_keys c" and "c_meta c' = c_meta c" and "c_class c' = c_class c"
    and "container_getitem c' name = (if name = k then Inr v else container_getitem c name)"
proof -
  from assms obtain fld where
    f: "map_of (c_fields c) k = Some fld" and
    c': "c' = c\<lparr>c_fields := AList.update k (fld\<lparr>f_value := v\<rparr>) (c_fields c)\<rparr>"
    by (auto simp: container_setitem_def split: option.splits)
  from f have "k \<in> fst ` set (c_fields c)" by (rule map_of_Some_key)
  then show "container_keys c' = container_keys c"
    unfolding c' by (simp add: container_keys_def update_keys)
  show "c_meta c' = c_meta c" and "c_class c' = c_class c" unfolding c' by simp_all
  show "container_getitem c' name = (if name = k then Inr v else container_getitem c name)"
    unfolding c' by (simp add: container_getitem_def update_conv')
qed

lemma container_setitem_ok:
  "k \<in> set (container_keys c) \<Longrightarrow> \<exists>c'. container_setitem c k v = Inr c'"
  by (auto simp: container_setitem_def container_keys_def map_of_eq_None_iff split: option.splits)

lemma read_row_effect:
  assumes "set cols \<subseteq> set (container_keys c)"
      and "\<forall>col\<in>set cols. returns (cell_value r t row col)"
  shows "\<exists>c'. read_row r t row cols c = Inr c' \<and> container_keys c' = container_keys c \<and>
           c_meta c' = c_meta c \<and> c_class c' = c_class c \<and>
           (\<forall>name. container_getitem c' name =
              (if name \<in> set cols then cell_value r t row name else container_getitem c name))"
  using assms
proof (induction cols arbitrary: c)
  case Nil
  then show ?case by simp
next
  case (Cons col cols)
  from Cons.prems(2) have "returns (cell_value r t row col)" by simp
  then obtain cell v where
    cell: "map_of row col = Some cell" and v: "r_apply_col_transform r t col cell = Inr v"
    by (auto simp: cell_value_def returns_iff split: option.splits)
  from Cons.prems(1) container_setitem_ok obtain c1 where
    s: "container_setitem c col v = Inr c1" by (metis list.set_intros(1) subsetD)
  note e = container_setitem_effect [OF s]
  have sub: "set cols \<subseteq> set (container_keys c1)" using Cons.prems(1) e(1) by simp
  from Cons.IH [OF sub] Cons.prems(2) obtain c' where
    r: "read_row r t row cols c1 = Inr c'" and k: "container_keys c' = container_keys c1" and
    m: "c_meta c' = c_meta c1" and cl: "c_class c' = c_class c1" and
    g: "\<forall>name. container_getitem c' name =
              (if name \<in> set cols then cell_value r t row name else container_getitem c1 name)"
    by auto
  have "read_row r t row (col # cols) c = Inr c'"
    using cell v s r by (simp add: row_getitem_def)
  moreover have "container_getitem c' name =
              (if name \<in> set (col # cols) then cell_value r t row name else container_getitem c name)"
    for name
    using g e(4) cell v by (simp add: cell_value_def)
  ultimately show ?case using k m cl e(1,2,3) by auto
qed

lemma read_loop_drop:
  "f_isopen (r_h5file r) \<Longrightarrow>
   read_loop r t tab i c = yield_rows r t (drop i (t_rows tab)) c"
proof (induction r t tab i c rule: read_loop.induct)
  case (1 r t tab i c)
  show ?case
  proof (cases "i < length (t_rows tab)")
    case False
    with 1(2) show ?thesis
      by (subst read_loop.simps) (simp add: table_getitem_def)
  next
    case True
    then have d: "drop i (t_rows tab) = t_rows tab ! i # drop (Suc i) (t_rows tab)"
      by (simp add: Cons_nth_drop_Suc)
    have g: "table_getitem (r_h5file r) tab i = Row (t_rows tab ! i)"
      using True 1(2) by (simp add: table_getitem_def)
    show ?thesis
    proof (cases "read_row r t (t_rows tab ! i) (r_cols_to_read r t) c")
      case (Inl e)
      then show ?thesis
        by (subst read_loop.simps) (simp add: g d)
    next
      case (Inr c')
      from 1(1) [OF g Inr 1(2)] Inr show ?thesis
        by (subst read_loop.simps) (simp add: g d)
    qed
  qed
qed

lemma row_readable_iff:
  "row_readable r t row \<longleftrightarrow> (\<forall>col\<in>set (r_cols_to_read r t). returns (cell_value r t row col))"
  by (simp add: row_readable_def list_all_iff)

lemma yield_rows_effect:
  assumes "set (r_cols_to_read r t) \<subseteq> set (container_keys c)"
      and "\<forall>row\<in>set rows. row_readable r t row"
  shows "\<exists>ys. yield_rows r t rows c = (ys, None) \<and> length ys = length rows \<and>
          (\<forall>i<length rows.
             read_row r t (rows ! i) (r_cols_to_read r t) (if i = 0 then c else ys ! (i - 1)) = Inr (ys ! i) \<and>
             container_keys (ys ! i) = container_keys c \<and> c_meta (ys ! i) = c_meta c \<and>
             c_class (ys ! i) = c_class c \<and>
             (\<forall>name. container_getitem (ys ! i) name =
                (if name \<in> set (r_cols_to_read r t) then cell_value r t (rows ! i) name
                 else container_getitem c name)))"
  using assms
proof (induction rows arbitrary: c)
  case Nil
  then show ?case by simp
next
  case (Cons row rows)
  let ?cols = "r_cols_to_read r t"
  from Cons.prems(2) have rd: "\<forall>col\<in>set ?cols. returns (cell_value r t row col)"
    by (simp add: row_readable_iff)
  from read_row_effect [OF Cons.prems(1) rd] obtain c' where
    r: "read_row r t row ?cols c = Inr c'" and k: "container_keys c' = container_keys c" and
    m: "c_meta c' = c_meta c" and cl: "c_class c' = c_class c" and
    g: "\<forall>name. container_getitem c' name =
              (if name \<in> set ?cols then cell_value r t row name else container_getitem c name)"
    by blast
  have sub: "set ?cols \<subseteq> set (container_keys c')" using Cons.prems(1) k by simp
  from Cons.IH [OF sub] Cons.prems(2) obtain ys where
    y: "yield_rows r t rows c' = (ys, None)" and len: "length ys = length rows" and
    ih: "\<forall>i<length rows.
             read_row r t (rows ! i) ?cols (if i = 0 then c' else ys ! (i - 1)) = Inr (ys ! i) \<and>
             container_keys (ys ! i) = container_keys c' \<and> c_meta (ys ! i) = c_meta c' \<and>
             c_class (ys ! i) = c_class c' \<and>
             (\<forall>name. container_getitem (ys ! i) name =
                (if name \<in> set ?cols then cell_value r t (rows ! i) name
                 else container_getitem c' name))"
    by auto
  have run: "yield_rows r t (row # rows) c = (c' # ys, None)"
    using r y by simp
  have "read_row r t ((row # rows) ! i) ?cols (if i = 0 then c else (c' # ys) ! (i - 1)) = Inr ((c' # ys) ! i) \<and>
             container_keys ((c' # ys) ! i) = container_keys c \<and> c_meta ((c' # ys) ! i) = c_meta c \<and>
             c_class ((c' # ys) ! i) = c_class c \<and>
             (\<forall>name. container_getitem ((c' # ys) ! i) name =
                (if name \<in> set ?cols then cell_value r t ((row # rows) ! i) name
                 else container_getitem c name))"
    if "i < length (row # rows)" for i
  proof (cases i)
    case 0
    with r k m cl g show ?thesis by simp
  next
    case (Suc j)
    with that have j: "j < length rows" by simp
    from ih [rule_format, OF j] have
      a: "read_row r t (rows ! j) ?cols (if j = 0 then c' else ys ! (j - 1)) = Inr (ys ! j)" and
      b: "container_keys (ys ! j) = container_keys c'" "c_meta (ys ! j) = c_meta c'"
         "c_class (ys ! j) = c_class c'" and
      c: "\<forall>name. container_getitem (ys ! j) name =
                (if name \<in> set ?cols then cell_value r t (rows ! j) name
                 else container_getitem c' name)"
      by blast+
    have prev: "(if Suc j = 0 then c else (c' # ys) ! (Suc j - 1)) = (if j = 0 then c' else ys ! (j - 1))"
      by (cases j) simp_all
    show ?thesis
      unfolding Suc prev using a b c k m cl g by simp
  qed
  with run len show ?case by auto
qed

lemma read_row_frame:
  "read_row r t row cols c = Inr c' \<Longrightarrow>
   c_meta c' = c_meta c \<and> container_keys c' = container_keys c \<and> c_class c' = c_class c"
proof (induction cols arbitrary: c)
  case Nil
  then show ?case by simp
next
  case (Cons col cols)
  from Cons.prems obtain v c1 where
    s: "container_setitem c col v = Inr c1" and r: "read_row r t row cols c1 = Inr c'"
    by (auto split: sum.splits)
  from Cons.IH [OF r] container_setitem_effect(1,2,3) [OF s] show ?case by simp
qed

lemma read_loop_frame:
  "read_loop r t tab i c = (ys, outcome) \<Longrightarrow>
   \<forall>y\<in>set ys. c_meta y = c_meta c \<and> container_keys y = container_keys c \<and> c_class y = c_class c"
proof (induction r t tab i c arbitrary: ys outcome rule: read_loop.induct)
  case (1 r t tab i c)
  show ?case
  proof (cases "table_getitem (r_h5file r) tab i")
    case (Row row)
    show ?thesis
    proof (cases "read_row r t row (r_cols_to_read r t) c")
      case (Inl e)
      with Row 1(2) show ?thesis by (subst (asm) read_loop.simps) simp
    next
      case (Inr c')
      obtain ys' out' where l: "read_loop r t tab (i + 1) c' = (ys', out')"
        by (cases "read_loop r t tab (i + 1) c'")
      from 1(2) Row Inr l have ys: "ys = c' # ys'"
        by (subst (asm) read_loop.simps) simp
      from 1(1) [OF Row Inr l] read_row_frame [OF Inr] show ?thesis
        unfolding ys by simp
    qed
  next
    case IndexError
    with 1(2) show ?thesis by (subst (asm) read_loop.simps) simp
  next
    case (Failed e)
    with 1(2) show ?thesis by (subst (asm) read_loop.simps) simp
  qed
qed

lemma match_columns_effect:
  "r_cols_to_read (match_columns t c cols r) =
     (r_cols_to_read r)(t := r_cols_to_read r t @ filter (\<lambda>k. k \<in> set (container_keys c)) cols) \<and>
   r_transforms (match_columns t c cols r) = r_transforms r \<and>
   r_tables (match_columns t c cols r) = r_tables r \<and>
   r_h5file (match_columns t c cols r) = r_h5file r"
  by (induction cols arbitrary: r) (simp_all add: fun_eq_iff)

lemma check_fields_effect:
  "r_cols_to_read (check_fields t c names r) = r_cols_to_read r \<and>
   r_transforms (check_fields t c names r) = r_transforms r \<and>
   r_tables (check_fields t c names r) = r_tables r \<and>
   r_h5file (check_fields t c names r) = r_h5file r"
  by (induction names arbitrary: r) simp_all

lemma header_transforms_frame:
  "r_cols_to_read (header_transforms E t tab attrs r) = r_cols_to_read r \<and>
   r_tables (header_transforms E t tab attrs r) = r_tables r \<and>
   r_h5file (header_transforms E t tab attrs r) = r_h5file r \<and>
   (\<forall>t'. t' \<noteq> t \<longrightarrow> r_transforms (header_transforms E t tab attrs r) t' = r_transforms r t')"
  by (induction attrs arbitrary: r)
     (simp_all add: r_add_column_transform_def split: option.splits)

lemma header_transforms_transforms:
  "r_transforms (header_transforms E t tab attrs r) t = unit_transforms E tab attrs (r_transforms r t)"
proof (induction attrs arbitrary: r)
  case Nil
  show ?case by simp
next
  case (Cons attr attrs)
  show ?case
  proof (cases "endswith attr ''_UNIT''")
    case False
    then show ?thesis using Cons.IH [of r] by simp
  next
    case True
    show ?thesis
    proof (cases "map_of (t_attrs tab) attr")
      case None
      with True show ?thesis using Cons.IH [of r] by simp
    next
      case (Some unitname)
      with True show ?thesis
        using Cons.IH [of "r_add_column_transform r t (take (length attr - 5) attr)
                 (\<lambda>v. tr_add_unit E v unitname)"]
        by (simp add: r_add_column_transform_def)
    qed
  qed
qed

lemma setup_table_effect:
  assumes "setup_table E r t c = Inr (r2, c1, tab)"
  shows "get_node (r_h5file r) t = Inr tab"
    and "r_tables r2 = (r_tables r)(t := Some tab)"
    and "r_h5file r2 = r_h5file r"
    and "r_cols_to_read r2 =
           (r_cols_to_read r)(t := r_cols_to_read r t @
              filter (\<lambda>k. k \<in> set (container_keys c)) (table_colnames tab))"
    and "c1 = c\<lparr>c_meta := dict_update (c_meta c) (t_attrs tab)\<rparr>"
    and "r_transforms r2 t = unit_transforms E tab (map fst (t_attrs tab)) (r_transforms r t)"
proof -
  let ?r0 = "r\<lparr>r_tables := (r_tables r)(t := Some tab)\<rparr>"
  let ?r1 = "check_fields t c (container_keys c) (match_columns t c (table_colnames tab) ?r0)"
  from assms obtain tab' where g': "get_node (r_h5file r) t = Inr tab'"
    by (cases "get_node (r_h5file r) t") (simp_all add: setup_table_def)
  let ?r0' = "r\<lparr>r_tables := (r_tables r)(t := Some tab')\<rparr>"
  let ?r1' = "check_fields t c (container_keys c) (match_columns t c (table_colnames tab') ?r0')"
  have m: "map_table_to_container ?r0' t c =
             Inr (?r1', c\<lparr>c_meta := dict_update (c_meta c) (t_attrs tab')\<rparr>)"
    by (simp add: map_table_to_container_def)
  have t1: "r_tables ?r1' t = Some tab'"
    by (simp add: check_fields_effect match_columns_effect)
  have h: "map_transforms_from_table_header E ?r1' t =
             Inr (header_transforms E t tab' (map fst (t_attrs tab')) ?r1')"
    by (simp add: map_transforms_from_table_header_def t1)
  have "setup_table E r t c =
          Inr (header_transforms E t tab' (map fst (t_attrs tab')) ?r1',
               c\<lparr>c_meta := dict_update (c_meta c) (t_attrs tab')\<rparr>, tab')"
    unfolding setup_table_def g' by (simp add: m h)
  with assms have eq: "Inr (r2, c1, tab) =
          ((Inr (header_transforms E t tab' (map fst (t_attrs tab')) ?r1',
               c\<lparr>c_meta := dict_update (c_meta c) (t_attrs tab')\<rparr>, tab'))
            :: error + reader \<times> container \<times> h5table)"
    by (simp only:)
  then have tab: "tab' = tab" by (simp only: sum.inject prod.inject)
  from eq have r2: "r2 = header_transforms E t tab (map fst (t_attrs tab)) ?r1"
    and c1: "c1 = c\<lparr>c_meta := dict_update (c_meta c) (t_attrs tab)\<rparr>"
    unfolding tab by (simp_all only: sum.inject prod.inject)
  from g' tab have g: "get_node (r_h5file r) t = Inr tab" by simp
  show "get_node (r_h5file r) t = Inr tab" by (rule g)
  show "c1 = c\<lparr>c_meta := dict_update (c_meta c) (t_attrs tab)\<rparr>" by (rule c1)
  show "r_tables r2 = (r_tables r)(t := Some tab)"
    unfolding r2 by (simp add: header_transforms_frame check_fields_effect match_columns_effect)
  show "r_h5file r2 = r_h5file r"
    unfolding r2 by (simp add: header_transforms_frame check_fields_effect match_columns_effect)
  show "r_cols_to_read r2 =
           (r_cols_to_read r)(t := r_cols_to_read r t @
              filter (\<lambda>k. k \<in> set (container_keys c)) (table_colnames tab))"
    unfolding r2 by (simp add: header_transforms_frame check_fields_effect match_columns_effect)
  have same: "r_transforms ?r1 = r_transforms r"
    by (simp add: check_fields_effect match_columns_effect)
  show "r_transforms r2 t = unit_transforms E tab (map fst (t_attrs tab)) (r_transforms r t)"
    unfolding r2 header_transforms_transforms same ..
qed

lemma read_cases:
  assumes "read_all E r t c = (r', ys, outcome)"
      and "r_tables r' t = Some tab"
  shows "(ys, outcome) = read_loop r' t tab 0
           (if r_tables r t = None then c\<lparr>c_meta := dict_update (c_meta c) (t_attrs tab)\<rparr> else c)"
    and "r_h5file r' = r_h5file r"
    and "r_tables r t \<noteq> None \<Longrightarrow> r' = r"
    and "r_tables r t = None \<Longrightarrow> setup_table E r t c =
           Inr (r', c\<lparr>c_meta := dict_update (c_meta c) (t_attrs tab)\<rparr>, tab)"
proof -
  have "(ys, outcome) = read_loop r' t tab 0
           (if r_tables r t = None then c\<lparr>c_meta := dict_update (c_meta c) (t_attrs tab)\<rparr> else c) \<and>
        r_h5file r' = r_h5file r \<and> (r_tables r t \<noteq> None \<longrightarrow> r' = r) \<and>
        (r_tables r t = None \<longrightarrow> setup_table E r t c =
           Inr (r', c\<lparr>c_meta := dict_update (c_meta c) (t_attrs tab)\<rparr>, tab))"
  proof (cases "r_tables r t")
    case (Some tab0)
    with assms(1) have r': "r' = r" and l: "read_loop r t tab0 0 c = (ys, outcome)"
      by (auto simp: read_all_def split: prod.splits)
    with assms(2) Some show ?thesis by simp
  next
    case None
    show ?thesis
    proof (cases "setup_table E r t c")
      case (Inl e)
      with None assms(1) have "r' = r" by (simp add: read_all_def)
      with None assms(2) show ?thesis by simp
    next
      case (Inr res)
      obtain r2 c1 tab2 where res: "res = (r2, c1, tab2)" by (cases res)
      note s = Inr [unfolded res]
      from None assms(1) s have r': "r' = r2" and l: "read_loop r2 t tab2 0 c1 = (ys, outcome)"
        by (auto simp: read_all_def split: prod.splits)
      from setup_table_effect(2) [OF s] assms(2) have tab: "tab2 = tab" unfolding r' by simp
      from setup_table_effect(3,5) [OF s] s l None show ?thesis
        unfolding r' tab by simp
    qed
  qed
  then show "(ys, outcome) = read_loop r' t tab 0
           (if r_tables r t = None then c\<lparr>c_meta := dict_update (c_meta c) (t_attrs tab)\<rparr> else c)"
    and "r_h5file r' = r_h5file r"
    and "r_tables r t \<noteq> None \<Longrightarrow> r' = r"
    and "r_tables r t = None \<Longrightarrow> setup_table E r t c =
           Inr (r', c\<lparr>c_meta := dict_update (c_meta c) (t_attrs tab)\<rparr>, tab)"
    by blast+
qed

text \<open>The definitions that evaluate a read on a concrete input, and the scenario.\<close>

lemmas reader_eval =
  generator_run_read read_all_def setup_table_def map_table_to_container_def
  map_transforms_from_table_header_def get_node_def HDF5TableReader_def
  r_add_column_transform_def r_apply_col_transform_def endswith_def table_colnames_def
  container_keys_def dict_update_def row_getitem_def container_setitem_def tr_add_unit_def
  table_getitem_def float_name_def

lemma events_file_eq:
  "events_file =
    \<lparr>f_isopen = False, f_groups = [''g''],
     f_nodes =
       [(''/g/events'',
         \<lparr>t_title = ''Storage of Event'',
          t_description =
            [(''x'', \<lparr>col_type = Float64Col, col_shape = []\<rparr>),
             (''y'', \<lparr>col_type = IntCol, col_shape = []\<rparr>)],
          t_attrs = [(''x_UNIT'', Str ''m''), (''CTAPIPE_VERSION'', Str ''0.6.1'')],
          t_rows =
            [[(''x'', Num (Scalar ''float64'' (F 1))), (''y'', Num (Scalar ''int32'' (I 7)))],
             [(''x'', Num (Scalar ''float64'' (F 2))), (''y'', Num (Scalar ''int32'' (I 8)))],
             [(''x'', Num (Scalar ''float64'' (F 3))), (''y'', Num (Scalar ''int32'' (I 9)))]]\<rparr>)]\<rparr>"
  by (simp add: events_file_def written_file_def writer_eval example_env_def example_Unit_def event_record_def
        HDF5TableWriter_close_def file_close_def)

lemma events_read:
  "\<exists>r' ys. read_all example_env (HDF5TableReader events_file) ''/g/events''
       (event_record 0 0) = (r', ys, None) \<and>
     r_tables r' ''/g/events'' = Some events_table \<and>
     r_cols_to_read r' ''/g/events'' = [''x'', ''y''] \<and>
     r_transforms r' ''/g/events'' = [(''x'', \<lambda>v. tr_add_unit example_env v (Str ''m''))]"
  by (simp add: events_file_eq reader_eval events_table_def event_record_def example_env_def example_Unit_def)

subsection \<open>One record per row\<close>

text \<open>
  C8. A loop over the generator that \<open>read\<close> returns, which found its table, on an
  open file, where the mapped columns are fields of the target container and the
  read-side transforms return on the stored values: the sequence ends without an
  exception after one record per row, in the order of the rows. The record of row \<open>i\<close>
  is the state of the one container after the mapped columns of row \<open>i\<close> have been
  assigned into the state yielded before (for row 0: the container given, after the
  set-up). Each mapped field holds the stored value with
  the read-side transform applied (\<open>cell_value\<close>: the identity when none is registered),
  each other field what the container held.
\<close>

theorem read_yields_rows:
  assumes "generator_run E r (HDF5TableReader_read t c) = (r', ys, outcome)"
      and "r_tables r' t = Some tab"
      and "f_isopen (r_h5file r)"
      and "set (r_cols_to_read r' t) \<subseteq> set (container_keys c)"
      and "\<forall>row\<in>set (t_rows tab). row_readable r' t row"
  shows "outcome = None \<and> length ys = length (t_rows tab) \<and>
         (\<forall>i<length (t_rows tab).
            read_row r' t (t_rows tab ! i) (r_cols_to_read r' t)
              (if i = 0
               then (if r_tables r t = None
                     then c\<lparr>c_meta := dict_update (c_meta c) (t_attrs tab)\<rparr> else c)
               else ys ! (i - 1)) = Inr (ys ! i) \<and>
            (\<forall>name. container_getitem (ys ! i) name =
               (if name \<in> set (r_cols_to_read r' t) then cell_value r' t (t_rows tab ! i) name
                else container_getitem c name)))"
proof -
  let ?c0 = "if r_tables r t = None then c\<lparr>c_meta := dict_update (c_meta c) (t_attrs tab)\<rparr> else c"
  note rc = read_cases [OF assms(1) [unfolded generator_run_read] assms(2)]
  have op: "f_isopen (r_h5file r')" using assms(3) rc(2) by simp
  have loop: "(ys, outcome) = yield_rows r' t (t_rows tab) ?c0"
    using rc(1) read_loop_drop [OF op, of t tab 0] by simp
  have keys: "container_keys ?c0 = container_keys c" by (simp add: container_keys_def)
  have get: "container_getitem ?c0 name = container_getitem c name" for name
    by (simp add: container_getitem_def)
  have sub: "set (r_cols_to_read r' t) \<subseteq> set (container_keys ?c0)"
    using assms(4) keys by simp
  from yield_rows_effect [OF sub assms(5)] loop get show ?thesis
    by auto
qed

theorem read_yields_rows_witness:
  "\<exists>r' ys. generator_run example_env (HDF5TableReader events_file)
       (HDF5TableReader_read ''/g/events'' (event_record 0 0)) = (r', ys, None) \<and>
     length ys = 3 \<and>
     container_getitem (ys ! 0) ''x'' = Inr (Quantity (Scalar ''float64'' (F 1)) ''m'') \<and>
     container_getitem (ys ! 2) ''y'' = Inr (Num (Scalar ''int32'' (I 9)))"
proof -
  let ?r = "HDF5TableReader events_file" and ?t = "''/g/events''" and ?c = "event_record 0 0"
  from events_read obtain r' ys where
    run0: "read_all example_env ?r ?t ?c = (r', ys, None)" and
    tab: "r_tables r' ?t = Some events_table" and
    cols: "r_cols_to_read r' ?t = [''x'', ''y'']" and
    trs: "r_transforms r' ?t = [(''x'', \<lambda>v. tr_add_unit example_env v (Str ''m''))]"
    by blast
  from run0 have run: "generator_run example_env ?r (HDF5TableReader_read ?t ?c) = (r', ys, None)"
    by (simp add: generator_run_read)
  have op: "f_isopen (r_h5file ?r)" by (simp add: HDF5TableReader_def)
  have sub: "set (r_cols_to_read r' ?t) \<subseteq> set (container_keys ?c)"
    by (simp add: cols container_keys_def event_record_def)
  have rd: "\<forall>row\<in>set (t_rows events_table). row_readable r' ?t row"
    by (simp add: events_table_def row_readable_def cell_value_def r_apply_col_transform_def
          returns_def cols trs tr_add_unit_def example_env_def example_Unit_def)
  from read_yields_rows [OF run tab op sub rd] have
    len: "length ys = length (t_rows events_table)" and
    get: "\<forall>i<length (t_rows events_table). \<forall>name. container_getitem (ys ! i) name =
               (if name \<in> set (r_cols_to_read r' ?t) then cell_value r' ?t (t_rows events_table ! i) name
                else container_getitem ?c name)"
    by blast+
  have "length ys = 3" using len by (simp add: events_table_def)
  moreover have "container_getitem (ys ! 0) ''x'' = Inr (Quantity (Scalar ''float64'' (F 1)) ''m'')"
    using get [rule_format, of 0 "''x''"]
    by (simp add: events_table_def cols trs cell_value_def r_apply_col_transform_def
          tr_add_unit_def example_env_def example_Unit_def float_name_def)
  moreover have "container_getitem (ys ! 2) ''y'' = Inr (Num (Scalar ''int32'' (I 9)))"
    using get [rule_format, of 2 "''y''"]
    by (simp add: events_table_def cols trs cell_value_def r_apply_col_transform_def)
  ultimately show ?thesis using run by blast
qed

subsection \<open>A later read of the same table\<close>

lemma assigned_frame:
  "c_meta (assigned r t row cols c) = c_meta c \<and>
   container_keys (assigned r t row cols c) = container_keys c"
proof (induction cols arbitrary: c)
  case Nil
  show ?case by simp
next
  case (Cons col cols)
  show ?case
  proof (cases "row_getitem row col")
    case (Inl e)
    then show ?thesis by simp
  next
    case (Inr cell)
    show ?thesis
    proof (cases "r_apply_col_transform r t col cell")
      case (Inl e)
      with Inr show ?thesis by simp
    next
      case v: (Inr v)
      show ?thesis
      proof (cases "container_setitem c col v")
        case (Inl e)
        with Inr v show ?thesis by simp
      next
        case c1: (Inr c1)
        from Cons.IH [of c1] container_setitem_effect(1,2) [OF c1] Inr v c1
        show ?thesis by simp
      qed
    qed
  qed
qed

lemma loop_turn_frame:
  assumes "loop_turn r g tab k = (g', s)"
  shows "c_meta (g_container g') = c_meta (g_container g)"
    and "container_keys (g_container g') = container_keys (g_container g)"
    and "g_table_name g' = g_table_name g"
proof -
  have "c_meta (g_container g') = c_meta (g_container g) \<and>
        container_keys (g_container g') = container_keys (g_container g) \<and>
        g_table_name g' = g_table_name g"
  proof (cases "table_getitem (r_h5file r) tab k")
    case (Row row)
    show ?thesis
    proof (cases "read_row r (g_table_name g) row (r_cols_to_read r (g_table_name g)) (g_container g)")
      case (Inl e)
      with Row assms have "g' = g\<lparr>g_container :=
                   assigned r (g_table_name g) row (r_cols_to_read r (g_table_name g))
                     (g_container g), g_position := Finished\<rparr>"
        by (simp add: loop_turn_def)
      then show ?thesis by (simp add: assigned_frame)
    next
      case (Inr c')
      with Row assms have "g' = g\<lparr>g_container := c', g_position := Suspended tab k\<rparr>"
        by (simp add: loop_turn_def)
      with read_row_frame [OF Inr] show ?thesis by simp
    qed
  next
    case IndexError
    with assms show ?thesis by (auto simp: loop_turn_def)
  next
    case (Failed e)
    with assms show ?thesis by (auto simp: loop_turn_def)
  qed
  then show "c_meta (g_container g') = c_meta (g_container g)"
    and "container_keys (g_container g') = container_keys (g_container g)"
    and "g_table_name g' = g_table_name g"
    by blast+
qed

lemma generator_next_known:
  assumes "r_tables r (g_table_name g) \<noteq> None" and "generator_next E r g = (r', g', s)"
  shows "r' = r \<and> c_meta (g_container g') = c_meta (g_container g) \<and>
         container_keys (g_container g') = container_keys (g_container g)"
proof (cases "g_position g")
  case Finished
  with assms(2) show ?thesis by (simp add: generator_next_def)
next
  case (Suspended tab k)
  obtain g1 s1 where l: "loop_turn r g tab (k + 1) = (g1, s1)"
    by (cases "loop_turn r g tab (k + 1)")
  with Suspended assms(2) have "r' = r" "g' = g1" by (auto simp: generator_next_def)
  with loop_turn_frame [OF l] show ?thesis by simp
next
  case Created
  from assms(1) obtain tab where tab: "r_tables r (g_table_name g) = Some tab" by auto
  obtain g1 s1 where l: "loop_turn r (g\<lparr>g_container := g_container g\<rparr>) tab 0 = (g1, s1)"
    by (cases "loop_turn r (g\<lparr>g_container := g_container g\<rparr>) tab 0")
  with Created tab assms(2) have "r' = r" "g' = g1" by (auto simp: generator_next_def)
  with loop_turn_frame [OF l] show ?thesis by simp
qed

lemma first_next_sets_up:
  assumes "generator_next E r0 (HDF5TableReader_read t c1) = (r1, g1, s1)"
      and "r_tables r0 t = None" and "r_tables r1 t = Some tab"
  shows "setup_table E r0 t c1 =
           Inr (r1, c1\<lparr>c_meta := dict_update (c_meta c1) (t_attrs tab)\<rparr>, tab)"
proof (cases "setup_table E r0 t c1")
  case (Inl e)
  with assms(1,2) have "r1 = r0"
    by (simp add: generator_next_def HDF5TableReader_read_def)
  with assms(2,3) show ?thesis by simp
next
  case (Inr x)
  obtain r c tab' where x: "x = (r, c, tab')" by (cases x)
  note s = Inr [unfolded x]
  from assms(1,2) s have "r1 = r"
    by (simp add: generator_next_def HDF5TableReader_read_def split: prod.splits)
  with setup_table_effect(2,5) [OF s] assms(3) s show ?thesis by simp
qed

lemmas generator_eval = generator_next_def loop_turn_def HDF5TableReader_read_def

lemma events_first_next:
  "\<exists>r1 g1. generator_next example_env (HDF5TableReader events_file)
       (HDF5TableReader_read ''/g/events'' (event_record 0 0)) = (r1, g1, Yielded) \<and>
     r_tables r1 ''/g/events'' = Some events_table"
  by (simp add: generator_eval events_file_eq reader_eval events_table_def event_record_def
        example_env_def example_Unit_def)

text \<open>
  C10 (amended). The set-up of a table runs when a generator of \<open>read\<close> is advanced
  for the first time, not when \<open>read\<close> is called. Once the generator for the container
  \<open>c1\<close> has been advanced and has set the table up, the columns to read are the table's
  columns that are fields of \<open>c1\<close>. A loop over a later \<open>read\<close> of the same table with a
  container \<open>c2\<close> leaves the reader as it is (nothing is matched against \<open>c2\<close> and
  nothing is logged) and reads the rows with this mapping into \<open>c2\<close>, whose metadata and
  field names are in every yielded state those that \<open>c2\<close> had: no header attribute is
  copied. The same holds step by step: advancing any generator of a table that the reader
  has got changes neither the reader nor the metadata and field names of the
  generator's container.
\<close>

theorem later_read_reuses_mapping:
  assumes "generator_next E r0 (HDF5TableReader_read t c1) = (r1, g1, s1)"
      and "r_tables r0 t = None" and "r_tables r1 t = Some tab"
      and "generator_run E r1 (HDF5TableReader_read t c2) = (r2, ys2, out2)"
  shows "r_cols_to_read r1 t =
           r_cols_to_read r0 t @ filter (\<lambda>k. k \<in> set (container_keys c1)) (table_colnames tab) \<and>
         r2 = r1 \<and> (ys2, out2) = read_loop r1 t tab 0 c2 \<and>
         (\<forall>y\<in>set ys2. c_meta y = c_meta c2 \<and> container_keys y = container_keys c2) \<and>
         (\<forall>r g r' g' s. r_tables r t \<noteq> None \<and> g_table_name g = t \<and>
              generator_next E r g = (r', g', s) \<longrightarrow>
            r' = r \<and> c_meta (g_container g') = c_meta (g_container g) \<and>
            container_keys (g_container g') = container_keys (g_container g))"
proof -
  note s = first_next_sets_up [OF assms(1-3)]
  have cols: "r_cols_to_read r1 t =
           r_cols_to_read r0 t @ filter (\<lambda>k. k \<in> set (container_keys c1)) (table_colnames tab)"
    using setup_table_effect(4) [OF s] by simp
  have set_up: "r_tables r1 t \<noteq> None" using assms(3) by simp
  note run = assms(4) [unfolded generator_run_read]
  have r2: "r2 = r1"
    using run set_up by (auto simp: read_all_def split: option.splits prod.splits)
  have tab2: "r_tables r2 t = Some tab" using r2 assms(3) by simp
  from read_cases(1) [OF run tab2] set_up r2
  have loop: "(ys2, out2) = read_loop r1 t tab 0 c2" by simp
  from read_loop_frame [OF loop [symmetric]]
  have fr: "\<forall>y\<in>set ys2. c_meta y = c_meta c2 \<and> container_keys y = container_keys c2" by blast
  have step: "\<forall>r g r' g' s. r_tables r t \<noteq> None \<and> g_table_name g = t \<and>
              generator_next E r g = (r', g', s) \<longrightarrow>
            r' = r \<and> c_meta (g_container g') = c_meta (g_container g) \<and>
            container_keys (g_container g') = container_keys (g_container g)"
    using generator_next_known by blast
  from cols r2 loop fr step show ?thesis by blast
qed

text \<open>
  C10 as stated fails: \<open>read\<close> has been called with the record of the events, but the
  generator has not been advanced. The generator of a later \<open>read\<close>, with a record that
  has the field \<open>x\<close> only, is advanced first: the table is set up with this record, the
  header attributes are copied into its metadata and \<open>x\<close> is the one column to read. The
  generator of the first \<open>read\<close>, advanced then, reads \<open>x\<close> and leaves \<open>y\<close> as it was.
\<close>

theorem read_called_not_advanced:
  "\<exists>r' g2 g1.
     generator_next example_env (HDF5TableReader events_file)
       (HDF5TableReader_read ''/g/events'' position_record) = (r', g2, Yielded) \<and>
     r_cols_to_read r' ''/g/events'' = [''x''] \<and>
     c_meta position_record = [(''run'', Str ''second'')] \<and>
     c_meta (g_container g2) =
       [(''run'', Str ''second''), (''x_UNIT'', Str ''m''), (''CTAPIPE_VERSION'', Str ''0.6.1'')] \<and>
     generator_next example_env r'
       (HDF5TableReader_read ''/g/events'' (event_record 0 0)) = (r', g1, Yielded) \<and>
     container_getitem (g_container g1) ''x'' = Inr (Quantity (Scalar ''float64'' (F 1)) ''m'') \<and>
     container_getitem (g_container g1) ''y'' = Inr (Num (Scalar ''int'' (I 0)))"
  by (simp add: generator_eval events_file_eq reader_eval position_record_def event_record_def
        example_env_def example_Unit_def container_getitem_def)

theorem later_read_reuses_mapping_witness:
  "\<exists>r1 g1 r2 ys2 out2.
     generator_next example_env (HDF5TableReader events_file)
       (HDF5TableReader_read ''/g/events'' (event_record 0 0)) = (r1, g1, Yielded) \<and>
     generator_run example_env r1 (HDF5TableReader_read ''/g/events'' tagged_record) =
       (r2, ys2, out2) \<and>
     r2 = r1 \<and> r_cols_to_read r1 ''/g/events'' = [''x'', ''y''] \<and>
     list_all (\<lambda>y. c_meta y = [(''run'', Str ''first'')]) ys2"
proof -
  let ?r = "HDF5TableReader events_file" and ?t = "''/g/events''" and ?c = "event_record 0 0"
  from events_first_next obtain r1 g1 where
    n1: "generator_next example_env ?r (HDF5TableReader_read ?t ?c) = (r1, g1, Yielded)" and
    tab: "r_tables r1 ?t = Some events_table"
    by blast
  obtain r2 ys2 out2 where
    run2: "generator_run example_env r1 (HDF5TableReader_read ?t tagged_record) = (r2, ys2, out2)"
    by (cases "generator_run example_env r1 (HDF5TableReader_read ?t tagged_record)")
  have none: "r_tables ?r ?t = None" by (simp add: HDF5TableReader_def)
  from later_read_reuses_mapping [OF n1 none tab run2] have
    "r2 = r1" and
    "r_cols_to_read r1 ?t =
       r_cols_to_read ?r ?t @ filter (\<lambda>k. k \<in> set (container_keys ?c)) (table_colnames events_table)" and
    "\<forall>y\<in>set ys2. c_meta y = c_meta tagged_record"
    by blast+
  then have "r2 = r1 \<and> r_cols_to_read r1 ?t = [''x'', ''y''] \<and>
     list_all (\<lambda>y. c_meta y = [(''run'', Str ''first'')]) ys2"
    by (simp add: HDF5TableReader_def container_keys_def event_record_def table_colnames_def
          events_table_def tagged_record_def list_all_iff)
  with n1 run2 show ?thesis by blast
qed

subsection \<open>Writing a record and reading it back\<close>

lemma map_of_fold_update:
  "map_of (fold (\<lambda>(k, v). AList.update k v) other d) = map_of d ++ map_of (rev other)"
proof (induction other arbitrary: d)
  case Nil
  show ?case by simp
next
  case (Cons kv other)
  obtain k v where kv: "kv = (k, v)" by (cases kv)
  have "map_of (fold (\<lambda>(k, v). AList.update k v) (kv # other) d) =
        map_of (AList.update k v d) ++ map_of (rev other)"
    unfolding kv using Cons.IH [of "AList.update k v d"] by simp
  also have "\<dots> = (map_of d)(k \<mapsto> v) ++ map_of (rev other)"
    by (simp only: update_conv')
  also have "\<dots> = map_of d ++ map_of (rev (kv # other))"
    unfolding kv by (rule ext) (simp add: map_add_def split: option.splits)
  finally show ?case .
qed

lemma map_of_dict_update:
  "map_of (dict_update d other) = map_of d ++ map_of (rev other)"
  by (simp add: dict_update_def map_of_fold_update)

lemma map_of_rev_distinct:
  "distinct (map fst xs) \<Longrightarrow> map_of (rev xs) = map_of xs"
proof (induction xs)
  case Nil
  show ?case by simp
next
  case (Cons kv xs)
  obtain k v where kv: "kv = (k, v)" by (cases kv)
  from Cons.prems have k: "k \<notin> fst ` set xs" and d: "distinct (map fst xs)"
    unfolding kv by simp_all
  have "map_of xs k = None" using k by (simp add: map_of_eq_None_iff)
  then show ?case
    unfolding kv using Cons.IH [OF d]
    by (auto simp: fun_eq_iff map_add_def split: option.splits)
qed

lemma distinct_fold_update:
  "distinct (map fst d) \<Longrightarrow> distinct (map fst (fold (\<lambda>(k, v). AList.update k v) other d))"
  by (induction other arbitrary: d) (auto simp: distinct_update)

lemma distinct_dict_update:
  "distinct (map fst d) \<Longrightarrow> distinct (map fst (dict_update d other))"
  by (simp add: dict_update_def distinct_fold_update)

lemma header_attrs_lookup:
  assumes "distinct (map fst meta)" and "distinct (map fst (c_meta c))"
  shows "map_of (header_attrs E [c] meta) k =
           (case map_of (c_meta c) k of
              Some v \<Rightarrow> Some v
            | None \<Rightarrow>
                if k = ''CTAPIPE_VERSION'' then Some (Str (ctapipe_version E)) else map_of meta k)"
proof -
  let ?m = "AList.update ''CTAPIPE_VERSION'' (Str (ctapipe_version E)) meta"
  have d: "distinct (map fst (dict_update ?m (c_meta c)))"
    using assms(1) by (simp add: distinct_dict_update distinct_update)
  have "map_of (header_attrs E [c] meta) = map_of (dict_update ?m (c_meta c))"
    by (simp add: header_attrs_def map_of_dict_update map_of_rev_distinct [OF d])
  also have "\<dots> = map_of ?m ++ map_of (c_meta c)"
    by (simp add: map_of_dict_update map_of_rev_distinct [OF assms(2)])
  finally show ?thesis
    by (simp add: map_add_def update_conv' split: option.splits)
qed

lemma endswith_unit_key: "endswith (unit_key n) ''_UNIT''"
  by (simp add: endswith_def unit_key_def)

lemma take_unit_key: "take (length (unit_key n) - 5) (unit_key n) = n"
  by (simp add: unit_key_def)

lemma endswith_is_unit_key:
  assumes "endswith attr ''_UNIT''"
  shows "unit_key (take (length attr - 5) attr) = attr"
proof -
  have five: "length ''_UNIT'' = 5" by simp
  from assms have d: "drop (length attr - 5) attr = ''_UNIT''"
    unfolding endswith_def five by simp
  have "take (length attr - 5) attr @ drop (length attr - 5) attr = attr"
    by (rule append_take_drop_id)
  then show ?thesis unfolding d unit_key_def .
qed

lemma unit_transforms_lookup:
  "map_of (unit_transforms E tab attrs trs) n =
     (if unit_key n \<in> set attrs then
        (case map_of (t_attrs tab) (unit_key n) of
           Some u \<Rightarrow> Some (\<lambda>v. tr_add_unit E v u)
         | None \<Rightarrow> map_of trs n)
      else map_of trs n)"
proof (induction attrs arbitrary: trs)
  case Nil
  show ?case by simp
next
  case (Cons attr attrs)
  show ?case
  proof (cases "attr = unit_key n")
    case True
    show ?thesis
      unfolding True
      by (cases "map_of (t_attrs tab) (unit_key n)")
         (simp_all add: Cons.IH endswith_unit_key take_unit_key update_conv')
  next
    case False
    have ne: "take (length attr - 5) attr \<noteq> n" if "endswith attr ''_UNIT''"
      using endswith_is_unit_key [OF that] False by auto
    show ?thesis
    proof (cases "endswith attr ''_UNIT''")
      case e: True
      show ?thesis
        using False ne [OF e] e
        by (cases "map_of (t_attrs tab) attr")
           (simp_all add: Cons.IH update_conv' cong: option.case_cong)
    next
      case e: False
      show ?thesis using False e by (simp add: Cons.IH)
    qed
  qed
qed

lemma unit_transforms_header:
  "map_of (unit_transforms E tab (map fst (t_attrs tab)) []) n =
     (case map_of (t_attrs tab) (unit_key n) of
        Some u \<Rightarrow> Some (\<lambda>v. tr_add_unit E v u)
      | None \<Rightarrow> None)"
proof (cases "map_of (t_attrs tab) (unit_key n)")
  case None
  then show ?thesis by (simp add: unit_transforms_lookup)
next
  case (Some u)
  then have "unit_key n \<in> fst ` set (t_attrs tab)"
    by (rule map_of_Some_key)
  then have "unit_key n \<in> set (map fst (t_attrs tab))" by simp
  with Some show ?thesis by (simp add: unit_transforms_lookup)
qed

lemma row_setitem_effect:
  assumes "row_setitem tab row k v = Inr row'"
  shows "\<exists>col cell. map_of (t_description tab) k = Some col \<and> set_cell col v = Inr cell \<and>
           map_of row' = (map_of row)(k \<mapsto> cell)"
  using assms
  by (auto simp: row_setitem_def update_conv' split: option.splits sum.splits)

lemma fill_row_lookup:
  assumes "fill_row w t tab c names row = Inr row'" and "distinct names"
  shows "(n \<notin> set names \<longrightarrow> map_of row' n = map_of row n) \<and>
         (n \<in> set names \<longrightarrow>
           (\<exists>v v' col cell. container_getitem c n = Inr v \<and> apply_col_transform w t n v = Inr v' \<and>
             map_of (t_description tab) n = Some col \<and> set_cell col v' = Inr cell \<and>
             map_of row' n = Some cell))"
  using assms
proof (induction names arbitrary: row n)
  case Nil
  then show ?case by simp
next
  case (Cons k names)
  from Cons.prems(1) obtain v v' row1 where
    g: "container_getitem c k = Inr v" and a: "apply_col_transform w t k v = Inr v'" and
    s: "row_setitem tab row k v' = Inr row1" and r: "fill_row w t tab c names row1 = Inr row'"
    by (auto split: sum.splits)
  from Cons.prems(2) have d: "distinct names" and kn: "k \<notin> set names" by simp_all
  note ih = Cons.IH [OF r d]
  from row_setitem_effect [OF s] obtain col cell where
    c: "map_of (t_description tab) k = Some col" "set_cell col v' = Inr cell" and
    m: "map_of row1 = (map_of row)(k \<mapsto> cell)"
    by auto
  show ?case
  proof (cases "n = k")
    case True
    from ih [of k] kn m have "map_of row' k = Some cell" by simp
    with g a c show ?thesis unfolding True by auto
  next
    case False
    with ih [of n] m show ?thesis by auto
  qed
qed

lemma schema_column_distinct_meta:
  assumes "schema_column E t (name, fld) (w, cols, meta) = Inr (w', cols', meta')"
      and "distinct (map fst meta)"
  shows "distinct (map fst meta')"
proof (cases "is_column_excluded w t name")
  case True
  with schema_column_excluded_eq [OF assms(1)] assms(2) show ?thesis by simp
next
  case False
  from schema_column_result [OF assms(1) False] assms(2) show ?thesis
    by (auto simp: distinct_update split: option.splits)
qed

lemma schema_items_distinct_meta:
  "schema_items E t items (w, cols, meta) = Inr (w', cols', meta') \<Longrightarrow>
   distinct (map fst meta) \<Longrightarrow> distinct (map fst meta')"
proof (induction items arbitrary: w cols meta)
  case Nil
  then show ?case by simp
next
  case (Cons item items)
  from Cons.prems(1) obtain w1 cols1 meta1 where
    step: "schema_column E t (fst item, snd item) (w, cols, meta) = Inr (w1, cols1, meta1)" and
    rest: "schema_items E t items (w1, cols1, meta1) = Inr (w', cols', meta')"
    by (auto split: sum.splits)
  from Cons.IH [OF rest schema_column_distinct_meta [OF step Cons.prems(2)]] show ?case .
qed

lemma table_row_lookup_None:
  "n \<notin> set (table_colnames tab) \<Longrightarrow> map_of (table_row tab) n = None"
  using table_row_keys [of tab] by (simp add: map_of_eq_None_iff) (metis set_map)

lemma container_getitem_field:
  "distinct (container_keys c) \<Longrightarrow> (name, fld) \<in> set (c_fields c) \<Longrightarrow>
   container_getitem c name = Inr (f_value fld)"
  by (simp add: container_getitem_def container_keys_def)

lemma first_write_record:
  assumes none: "w_schemas w0 t = None" and notr: "w_transforms w0 t = []"
      and wr: "HDF5TableWriter_write E w0 t [c] = Inr w1"
      and dk: "distinct (container_keys c)"
  shows "\<exists>cols meta row.
     map_of (f_nodes (w_h5file w1)) (node_path (w_group w0) t) =
       Some ((new_table E [c] cols meta)\<lparr>t_rows := [row]\<rparr>) \<and>
     fst ` set cols \<subseteq> set (container_keys c) \<and> map fst row = map fst cols \<and>
     distinct (map fst meta) \<and>
     (\<forall>name fld. (name, fld) \<in> set (c_fields c) \<longrightarrow>
        (is_column_excluded w0 t name \<longrightarrow>
           map_of cols name = None \<and> map_of meta (unit_key name) = None \<and>
           map_of row name = None \<and> map_of (w_transforms w1 t) name = None) \<and>
        (\<not> is_column_excluded w0 t name \<longrightarrow>
           (\<exists>v. stripped E fld = Inr v \<and> map_of cols name = column_for v \<and>
              map_of meta (unit_key name) = map_option Str (field_unit fld) \<and>
              map_of (w_transforms w1 t) name = field_transform E fld \<and>
              (case column_for v of
                 None \<Rightarrow> map_of row name = None
               | Some col \<Rightarrow>
                   (\<exists>v' cell. written E fld = Inr v' \<and> set_cell col v' = Inr cell \<and>
                      map_of row name = Some cell)))))"
proof -
  let ?p = "node_path (w_group w0) t"
  let ?w0 = "w0\<lparr>w_log := w_log w0 @ [Initializing t]\<rparr>"
  from first_write [OF none wr] obtain wS cols meta row where
    sc: "schema_containers E t [c] (?w0, [], []) = Inr (wS, cols, meta)" and
    new: "?p \<notin> fst ` set (f_nodes (w_h5file w0))" and
    fr: "fill_rows wS t (new_table E [c] cols meta) [c] (table_row (new_table E [c] cols meta)) = Inr row" and
    rk: "map fst row = map fst cols" and
    w1: "w1 = wS\<lparr>w_schemas := (w_schemas w0)(t := Some cols),
              w_h5file := (w_h5file w0)\<lparr>f_nodes := f_nodes (w_h5file w0) @
                 [(?p, (new_table E [c] cols meta)\<lparr>t_rows := [row]\<rparr>)]\<rparr>,
              w_tables := (w_tables w0)(t := Some ?p)\<rparr>"
    by blast
  let ?tab0 = "new_table E [c] cols meta"
  have si: "schema_items E t (c_fields c) (?w0, [], []) = Inr (wS, cols, meta)"
    using sc by (simp split: sum.splits)
  have look: "map_of (f_nodes (w_h5file w1)) ?p = Some (?tab0\<lparr>t_rows := [row]\<rparr>)"
    using new unfolding w1 by (simp add: map_add_def map_of_eq_None_iff [THEN iffD2])
  have keys: "fst ` set cols \<subseteq> set (container_keys c)"
    using schema_items_keys [OF si] by (auto simp: container_keys_def intro: rev_image_eqI)
  have dm: "distinct (map fst meta)"
    using schema_items_distinct_meta [OF si] by simp
  have d: "distinct (map fst (c_fields c))" using dk by (simp add: container_keys_def)
  have tr1: "w_transforms w1 t = w_transforms wS t" unfolding w1 by simp
  have cn: "table_colnames ?tab0 = map fst cols"
    by (simp add: table_colnames_def new_table_def)
  let ?names = "filter (\<lambda>k. k \<in> set (table_colnames ?tab0)) (container_keys c)"
  have fill: "fill_row wS t ?tab0 c ?names (table_row ?tab0) = Inr row"
    using fr by (simp split: sum.splits)
  have dn: "distinct ?names" using dk by simp
  note fl = fill_row_lookup [OF fill dn]
  have norow: "map_of row name = None" if "map_of cols name = None" for name
  proof -
    from that have "name \<notin> set (table_colnames ?tab0)"
      unfolding cn by (simp add: map_of_eq_None_iff)
    then have "name \<notin> set ?names" and "map_of (table_row ?tab0) name = None"
      by (simp_all add: table_row_lookup_None)
    with fl [of name] show ?thesis by simp
  qed
  have field: "(is_column_excluded w0 t name \<longrightarrow>
           map_of cols name = None \<and> map_of meta (unit_key name) = None \<and>
           map_of row name = None \<and> map_of (w_transforms w1 t) name = None) \<and>
        (\<not> is_column_excluded w0 t name \<longrightarrow>
           (\<exists>v. stripped E fld = Inr v \<and> map_of cols name = column_for v \<and>
              map_of meta (unit_key name) = map_option Str (field_unit fld) \<and>
              map_of (w_transforms w1 t) name = field_transform E fld \<and>
              (case column_for v of
                 None \<Rightarrow> map_of row name = None
               | Some col \<Rightarrow>
                   (\<exists>v' cell. written E fld = Inr v' \<and> set_cell col v' = Inr cell \<and>
                      map_of row name = Some cell))))"
    if mem: "(name, fld) \<in> set (c_fields c)" for name fld
  proof (cases "is_column_excluded w0 t name")
    case True
    then have ex: "is_column_excluded ?w0 t name" by simp
    from schema_items_field(1) [OF si d mem ex] notr
    have "map_of (w_transforms wS t) name = None" "map_of cols name = None"
      "map_of meta (unit_key name) = None"
      by simp_all
    with True norow tr1 show ?thesis by simp
  next
    case False
    then have ex: "\<not> is_column_excluded ?w0 t name" by simp
    from schema_items_field(2) [OF si d mem ex] notr obtain v where
      v: "stripped E fld = Inr v" and
      tr: "map_of (w_transforms wS t) name = field_transform E fld" and
      col: "map_of cols name = column_for v" and
      mu: "map_of meta (unit_key name) = map_option Str (field_unit fld)"
      by (auto split: option.splits)
    have cell: "case column_for v of
                 None \<Rightarrow> map_of row name = None
               | Some col \<Rightarrow>
                   (\<exists>v' cell. written E fld = Inr v' \<and> set_cell col v' = Inr cell \<and>
                      map_of row name = Some cell)"
    proof (cases "column_for v")
      case None
      with col norow show ?thesis by simp
    next
      case (Some cl)
      with col have "name \<in> fst ` set cols" by (auto dest: map_of_Some_key)
      moreover have "name \<in> set (container_keys c)"
        using mem by (auto simp: container_keys_def intro: rev_image_eqI)
      ultimately have "name \<in> set ?names" unfolding cn by simp
      with fl [of name] obtain x v' cl' cell where
        g: "container_getitem c name = Inr x" and a: "apply_col_transform wS t name x = Inr v'" and
        c: "map_of (t_description ?tab0) name = Some cl'" and sc: "set_cell cl' v' = Inr cell" and
        r: "map_of row name = Some cell"
        by blast
      from g container_getitem_field [OF dk mem] have x: "x = f_value fld" by simp
      from c col Some have cl': "cl' = cl" by (simp add: new_table_def)
      from a tr have "written E fld = Inr v'"
        unfolding x by (simp add: apply_col_transform_def written_def split: option.splits)
      with sc r Some show ?thesis unfolding cl' by auto
    qed
    from False v tr col mu cell tr1 show ?thesis by auto
  qed
  from look keys rk dm field show ?thesis by blast
qed

lemma setup_table_eq:
  assumes "get_node (r_h5file r) t = Inr tab"
  shows "setup_table E r t c =
          Inr (header_transforms E t tab (map fst (t_attrs tab))
                 (check_fields t c (container_keys c)
                    (match_columns t c (table_colnames tab)
                       (r\<lparr>r_tables := (r_tables r)(t := Some tab)\<rparr>))),
               c\<lparr>c_meta := dict_update (c_meta c) (t_attrs tab)\<rparr>, tab)"
proof -
  let ?r0 = "r\<lparr>r_tables := (r_tables r)(t := Some tab)\<rparr>"
  let ?r1 = "check_fields t c (container_keys c) (match_columns t c (table_colnames tab) ?r0)"
  have m: "map_table_to_container ?r0 t c =
             Inr (?r1, c\<lparr>c_meta := dict_update (c_meta c) (t_attrs tab)\<rparr>)"
    by (simp add: map_table_to_container_def)
  have t1: "r_tables ?r1 t = Some tab"
    by (simp add: check_fields_effect match_columns_effect)
  have h: "map_transforms_from_table_header E ?r1 t =
             Inr (header_transforms E t tab (map fst (t_attrs tab)) ?r1)"
    by (simp add: map_transforms_from_table_header_def t1)
  show ?thesis unfolding setup_table_def assms by (simp add: m h)
qed

lemma set_cell_Num: "set_cell col v = Inr cell \<Longrightarrow> \<exists>x. cell = Num x"
  by (auto simp: set_cell_def split: pyval.splits option.splits sum.splits if_splits list.splits)

lemma tr_add_unit_Num:
  "astropy_Unit E (Str u) = Inr u \<Longrightarrow>
   tr_add_unit E (Num x) (Str u) = Inr (Quantity (scale_payload 1 x) u)"
  by (simp add: tr_add_unit_def)

lemma roundtrip:
  assumes none: "w_schemas w0 t = None" and notr: "w_transforms w0 t = []"
      and wr: "HDF5TableWriter_write E w0 t [c] = Inr w1"
      and dk: "distinct (container_keys c)"
      and dm: "distinct (map fst (c_meta c))"
      and nometa: "\<forall>name\<in>set (container_keys c). unit_key name \<notin> fst ` set (c_meta c)"
      and known: "\<forall>(name, fld)\<in>set (c_fields c). \<forall>u. field_unit fld = Some u \<longrightarrow> astropy_Unit E (Str u) = Inr u"
  shows "\<exists>r' c' tab row.
      read_all E (HDF5TableReader (w_h5file (HDF5TableWriter_close w1)))
        (node_path (w_group w0) t) c0 = (r', [c'], None) \<and>
      map_of (f_nodes (w_h5file w1)) (node_path (w_group w0) t) = Some tab \<and> t_rows tab = [row] \<and>
      container_keys c' = container_keys c0 \<and>
      (\<forall>name fld. (name, fld) \<in> set (c_fields c) \<and> \<not> is_column_excluded w0 t name \<longrightarrow>
         (\<exists>v. stripped E fld = Inr v \<and> map_of (t_description tab) name = column_for v \<and>
            map_of (t_attrs tab) (unit_key name) = map_option Str (field_unit fld) \<and>
            map_of (w_transforms w1 t) name = field_transform E fld \<and>
            map_of (r_transforms r' (node_path (w_group w0) t)) name =
              map_option (\<lambda>u x. tr_add_unit E x (Str u)) (field_unit fld) \<and>
            (case column_for v of
               None \<Rightarrow> map_of row name = None \<and> container_getitem c' name = container_getitem c0 name
             | Some col \<Rightarrow>
                 (\<exists>v' cell. written E fld = Inr v' \<and> set_cell col v' = Inr cell \<and>
                    map_of row name = Some cell \<and>
                    (name \<in> set (container_keys c0) \<longrightarrow>
                       container_getitem c' name =
                         (case field_unit fld of
                            None \<Rightarrow> Inr cell
                          | Some u \<Rightarrow> tr_add_unit E cell (Str u)))))))"
proof -
  let ?p = "node_path (w_group w0) t"
  let ?R = "HDF5TableReader (w_h5file (HDF5TableWriter_close w1))"
  from first_write_record [OF none notr wr dk] obtain cols meta row where
    look: "map_of (f_nodes (w_h5file w1)) ?p = Some ((new_table E [c] cols meta)\<lparr>t_rows := [row]\<rparr>)" and
    keys: "fst ` set cols \<subseteq> set (container_keys c)" and
    rk: "map fst row = map fst cols" and
    dmeta: "distinct (map fst meta)" and
    fields: "\<forall>name fld. (name, fld) \<in> set (c_fields c) \<longrightarrow>
        (is_column_excluded w0 t name \<longrightarrow>
           map_of cols name = None \<and> map_of meta (unit_key name) = None \<and>
           map_of row name = None \<and> map_of (w_transforms w1 t) name = None) \<and>
        (\<not> is_column_excluded w0 t name \<longrightarrow>
           (\<exists>v. stripped E fld = Inr v \<and> map_of cols name = column_for v \<and>
              map_of meta (unit_key name) = map_option Str (field_unit fld) \<and>
              map_of (w_transforms w1 t) name = field_transform E fld \<and>
              (case column_for v of
                 None \<Rightarrow> map_of row name = None
               | Some col \<Rightarrow>
                   (\<exists>v' cell. written E fld = Inr v' \<and> set_cell col v' = Inr cell \<and>
                      map_of row name = Some cell))))"
    by blast
  have fex: "map_of cols name = None"
    if "(name, fld) \<in> set (c_fields c)" and "is_column_excluded w0 t name" for name fld
    using fields [rule_format, OF that(1)] that(2) by simp
  have fne: "\<exists>v. stripped E fld = Inr v \<and> map_of cols name = column_for v \<and>
              map_of meta (unit_key name) = map_option Str (field_unit fld) \<and>
              map_of (w_transforms w1 t) name = field_transform E fld \<and>
              (case column_for v of
                 None \<Rightarrow> map_of row name = None
               | Some col \<Rightarrow>
                   (\<exists>v' cell. written E fld = Inr v' \<and> set_cell col v' = Inr cell \<and>
                      map_of row name = Some cell))"
    if "(name, fld) \<in> set (c_fields c)" and "\<not> is_column_excluded w0 t name" for name fld
    using fields [rule_format, OF that(1)] that(2) by simp
  let ?tab = "(new_table E [c] cols meta)\<lparr>t_rows := [row]\<rparr>"
  have desc: "t_description ?tab = cols" and attrs: "t_attrs ?tab = header_attrs E [c] meta"
    and rows: "t_rows ?tab = [row]" and cn: "table_colnames ?tab = map fst cols"
    by (simp_all add: new_table_def table_colnames_def)
  \<comment> \<open>the header attribute of a field's unit\<close>
  have attr: "map_of (t_attrs ?tab) (unit_key name) = map_of meta (unit_key name)"
    if "name \<in> set (container_keys c)" for name
  proof -
    from that nometa have "map_of (c_meta c) (unit_key name) = None"
      by (simp add: map_of_eq_None_iff)
    then show ?thesis
      unfolding attrs header_attrs_lookup [OF dmeta dm]
      using version_key_not_unit [of name] by auto
  qed
  \<comment> \<open>the reader after the set-up\<close>
  have g: "get_node (r_h5file ?R) ?p = Inr ?tab"
    using look
    by (simp add: get_node_def HDF5TableReader_def HDF5TableWriter_close_def file_close_def)
  note s = setup_table_eq [OF g, of E c0]
  let ?c0 = "c0\<lparr>c_meta := dict_update (c_meta c0) (t_attrs ?tab)\<rparr>"
  obtain r' where s': "setup_table E ?R ?p c0 = Inr (r', ?c0, ?tab)" using s by blast
  note e = setup_table_effect [OF s']
  have rt: "r_tables r' ?p = Some ?tab" using e(2) by simp
  have op: "f_isopen (r_h5file r')" using e(3) by (simp add: HDF5TableReader_def)
  have cr: "r_cols_to_read r' ?p = filter (\<lambda>k. k \<in> set (container_keys c0)) (map fst cols)"
    using e(4) by (simp add: HDF5TableReader_def cn)
  have rtr: "map_of (r_transforms r' ?p) name =
        (case map_of (t_attrs ?tab) (unit_key name) of
           Some u \<Rightarrow> Some (\<lambda>v. tr_add_unit E v u)
         | None \<Rightarrow> None)" for name
    using e(6) unit_transforms_header [of E ?tab name] by (simp add: HDF5TableReader_def)
  have read: "read_all E ?R ?p c0 =
      (case read_loop r' ?p ?tab 0 ?c0 of (ys, outcome) \<Rightarrow> (r', ys, outcome))"
    by (simp add: read_all_def HDF5TableReader_def s' [unfolded HDF5TableReader_def])
  have loop: "read_loop r' ?p ?tab 0 ?c0 = yield_rows r' ?p [row] ?c0"
    using read_loop_drop [OF op, of ?p ?tab 0 ?c0] by (simp add: rows)
  \<comment> \<open>a field that is a column\<close>
  have column: "\<exists>fld v cl v' cell. (name, fld) \<in> set (c_fields c) \<and> \<not> is_column_excluded w0 t name \<and>
      stripped E fld = Inr v \<and> column_for v = Some cl \<and> written E fld = Inr v' \<and>
      set_cell cl v' = Inr cell \<and> map_of row name = Some cell \<and>
      map_of meta (unit_key name) = map_option Str (field_unit fld)"
    if "name \<in> fst ` set cols" for name
  proof -
    from that keys have "name \<in> set (container_keys c)" by blast
    then obtain fld where mem: "(name, fld) \<in> set (c_fields c)"
      by (auto simp: container_keys_def)
    from that have some: "map_of cols name \<noteq> None" by (simp add: map_of_eq_None_iff)
    with fex [OF mem] have ne: "\<not> is_column_excluded w0 t name" by blast
    from fne [OF mem ne] obtain v where
      v: "stripped E fld = Inr v" "map_of cols name = column_for v"
         "map_of meta (unit_key name) = map_option Str (field_unit fld)" and
      cs: "case column_for v of
                 None \<Rightarrow> map_of row name = None
               | Some col \<Rightarrow>
                   (\<exists>v' cell. written E fld = Inr v' \<and> set_cell col v' = Inr cell \<and>
                      map_of row name = Some cell)"
      by blast
    from some v(2) obtain cl where cl: "column_for v = Some cl" by auto
    with cs obtain v' cell where "written E fld = Inr v'" "set_cell cl v' = Inr cell"
      "map_of row name = Some cell"
      by auto
    with mem ne v cl show ?thesis by blast
  qed
  \<comment> \<open>the value read from a column\<close>
  have cv: "cell_value r' ?p row name =
        (case field_unit fld of None \<Rightarrow> Inr cell | Some u \<Rightarrow> tr_add_unit E cell (Str u))"
    if "(name, fld) \<in> set (c_fields c)" and "map_of row name = Some cell"
      and "map_of meta (unit_key name) = map_option Str (field_unit fld)" for name fld cell
  proof -
    from that(1) have "name \<in> set (container_keys c)"
      by (auto simp: container_keys_def intro: rev_image_eqI)
    from attr [OF this] that(3) rtr [of name] that(2) show ?thesis
      by (cases "field_unit fld") (simp_all add: cell_value_def r_apply_col_transform_def)
  qed
  have readable: "row_readable r' ?p row"
    unfolding row_readable_iff
  proof
    fix col assume "col \<in> set (r_cols_to_read r' ?p)"
    then have "col \<in> fst ` set cols" unfolding cr by simp
    from column [OF this] obtain fld v cl v' cell where
      mem: "(col, fld) \<in> set (c_fields c)" and sc: "set_cell cl v' = Inr cell" and
      r: "map_of row col = Some cell" and
      mu: "map_of meta (unit_key col) = map_option Str (field_unit fld)"
      by blast
    from set_cell_Num [OF sc] obtain x where x: "cell = Num x" by blast
    show "returns (cell_value r' ?p row col)"
    proof (cases "field_unit fld")
      case None
      with cv [OF mem r mu] show ?thesis by (simp add: returns_def)
    next
      case (Some u)
      with known mem have "astropy_Unit E (Str u) = Inr u" by blast
      with cv [OF mem r mu] Some x show ?thesis
        by (simp add: returns_def tr_add_unit_Num)
    qed
  qed
  have sub: "set (r_cols_to_read r' ?p) \<subseteq> set (container_keys ?c0)"
    unfolding cr by (auto simp: container_keys_def)
  from yield_rows_effect [OF sub, of "[row]"] readable obtain ys where
    y: "yield_rows r' ?p [row] ?c0 = (ys, None)" and len: "length ys = 1" and
    k0: "container_keys (ys ! 0) = container_keys ?c0" and
    get: "\<forall>name. container_getitem (ys ! 0) name =
                (if name \<in> set (r_cols_to_read r' ?p) then cell_value r' ?p row name
                 else container_getitem ?c0 name)"
    by auto
  from len obtain c' where ys: "ys = [c']" by (cases ys) auto
  have run: "read_all E ?R ?p c0 = (r', [c'], None)"
    unfolding read loop y ys by simp
  have kc: "container_keys c' = container_keys c0"
    using k0 unfolding ys by (simp add: container_keys_def)
  have getc: "container_getitem c' name =
                (if name \<in> set (r_cols_to_read r' ?p) then cell_value r' ?p row name
                 else container_getitem c0 name)" for name
    using get unfolding ys by (simp add: container_getitem_def)
  have field: "\<exists>v. stripped E fld = Inr v \<and> map_of (t_description ?tab) name = column_for v \<and>
            map_of (t_attrs ?tab) (unit_key name) = map_option Str (field_unit fld) \<and>
            map_of (w_transforms w1 t) name = field_transform E fld \<and>
            map_of (r_transforms r' ?p) name =
              map_option (\<lambda>u x. tr_add_unit E x (Str u)) (field_unit fld) \<and>
            (case column_for v of
               None \<Rightarrow> map_of row name = None \<and> container_getitem c' name = container_getitem c0 name
             | Some col \<Rightarrow>
                 (\<exists>v' cell. written E fld = Inr v' \<and> set_cell col v' = Inr cell \<and>
                    map_of row name = Some cell \<and>
                    (name \<in> set (container_keys c0) \<longrightarrow>
                       container_getitem c' name =
                         (case field_unit fld of
                            None \<Rightarrow> Inr cell
                          | Some u \<Rightarrow> tr_add_unit E cell (Str u)))))"
    if mem: "(name, fld) \<in> set (c_fields c)" and ne: "\<not> is_column_excluded w0 t name" for name fld
  proof -
    from fne [OF mem ne] obtain v where
      v: "stripped E fld = Inr v" and col: "map_of cols name = column_for v" and
      mu: "map_of meta (unit_key name) = map_option Str (field_unit fld)" and
      tr: "map_of (w_transforms w1 t) name = field_transform E fld" and
      cs: "case column_for v of
                 None \<Rightarrow> map_of row name = None
               | Some col \<Rightarrow>
                   (\<exists>v' cell. written E fld = Inr v' \<and> set_cell col v' = Inr cell \<and>
                      map_of row name = Some cell)"
      by blast
    have inc: "name \<in> set (container_keys c)"
      using mem by (auto simp: container_keys_def intro: rev_image_eqI)
    have a: "map_of (t_attrs ?tab) (unit_key name) = map_option Str (field_unit fld)"
      using attr [OF inc] mu by simp
    have rtr': "map_of (r_transforms r' ?p) name =
              map_option (\<lambda>u x. tr_add_unit E x (Str u)) (field_unit fld)"
      unfolding rtr a by (cases "field_unit fld") simp_all
    have last: "case column_for v of
               None \<Rightarrow> map_of row name = None \<and> container_getitem c' name = container_getitem c0 name
             | Some col \<Rightarrow>
                 (\<exists>v' cell. written E fld = Inr v' \<and> set_cell col v' = Inr cell \<and>
                    map_of row name = Some cell \<and>
                    (name \<in> set (container_keys c0) \<longrightarrow>
                       container_getitem c' name =
                         (case field_unit fld of
                            None \<Rightarrow> Inr cell
                          | Some u \<Rightarrow> tr_add_unit E cell (Str u))))"
    proof (cases "column_for v")
      case None
      with col have "name \<notin> fst ` set cols" by (simp add: map_of_eq_None_iff)
      then have "name \<notin> set (r_cols_to_read r' ?p)" unfolding cr by simp
      with getc [of name] cs None show ?thesis by simp
    next
      case (Some cl)
      with cs obtain v' cell where
        w: "written E fld = Inr v'" "set_cell cl v' = Inr cell" and r: "map_of row name = Some cell"
        by auto
      from Some col have incols: "name \<in> fst ` set cols" by (auto dest: map_of_Some_key)
      have "container_getitem c' name =
                         (case field_unit fld of
                            None \<Rightarrow> Inr cell
                          | Some u \<Rightarrow> tr_add_unit E cell (Str u))"
        if "name \<in> set (container_keys c0)"
      proof -
        from that incols have "name \<in> set (r_cols_to_read r' ?p)" unfolding cr by simp
        with getc [of name] cv [OF mem r mu] show ?thesis by simp
      qed
      with w r Some show ?thesis by auto
    qed
    from v col a tr rtr' last show ?thesis unfolding desc by blast
  qed
  from run look rows kc field show ?thesis by blast
qed

lemma wrap_32: "- (2 ^ 31) \<le> n \<Longrightarrow> n < 2 ^ 31 \<Longrightarrow> wrap 32 n = n"
  by (simp add: wrap_def)

lemma wrap_64: "- (2 ^ 63) \<le> n \<Longrightarrow> n < 2 ^ 63 \<Longrightarrow> wrap 64 n = n"
  by (simp add: wrap_def)

text \<open>
  A Python integer beyond the range of its 32-bit column does not survive the assignment
  to a cell.
\<close>

lemma cast_beyond_range:
  "set_cell \<lparr>col_type = IntCol, col_shape = []\<rparr> (Num (Scalar ''int'' (I (2 ^ 31)))) =
     Inr (Num (Scalar ''int32'' (I (- (2 ^ 31)))))"
  by (simp add: set_cell_def broadcast_def int_cell_def wrap_def)

lemma cast_fits:
  assumes "map_of PYTABLES_TYPE_MAP dt = Some ct" and "fits dt c"
  shows "\<exists>c'. cast ct c = Inr c' \<and> num_val c' = num_val c \<and> to_float c' = to_float c"
proof (cases c)
  case (F x)
  with assms show ?thesis by (auto simp: PYTABLES_TYPE_MAP_def float_cell_def)
next
  case (I n)
  with assms show ?thesis
    by (auto simp: PYTABLES_TYPE_MAP_def int_cell_def wrap_32 wrap_64 split: if_splits)
next
  case (B b)
  with assms show ?thesis by (auto simp: PYTABLES_TYPE_MAP_def)
qed

lemma cast_all_fits:
  assumes "map_of PYTABLES_TYPE_MAP dt = Some ct" and "list_all (fits dt) xs"
  shows "\<exists>zs. cast_all ct xs = Inr zs \<and> map num_val zs = map num_val xs \<and>
           map to_float zs = map to_float xs"
  using assms(2)
proof (induction xs)
  case Nil
  show ?case by simp
next
  case (Cons x xs)
  from Cons.prems have "fits dt x" and "list_all (fits dt) xs" by simp_all
  from cast_fits [OF assms(1) this(1)] Cons.IH [OF this(2)] show ?case by auto
qed

lemma set_cell_same:
  assumes "column_for (Num x) = Some col" and "well_formed x"
  shows "\<exists>x'. set_cell col (Num x) = Inr (Num x') \<and> same_number x x' \<and>
           map to_float (elements x') = map to_float (elements x)"
proof -
  obtain dt where dt: "dt = (case x of Scalar n c \<Rightarrow> n | NdArray d sh xs \<Rightarrow> d)" by simp
  from assms(1) obtain ct where
    ct: "map_of PYTABLES_TYPE_MAP dt = Some ct" and
    col: "col = \<lparr>col_type = ct, col_shape = shape_of x\<rparr>"
    unfolding dt by (cases x) (auto simp: column_for_def)
  from assms(2) have f: "list_all (fits dt) (elements x)" and
    len: "length (elements x) = prod_list (shape_of x)"
    unfolding dt by (cases x; simp)+
  from cast_all_fits [OF ct f] obtain zs where
    zs: "cast_all ct (elements x) = Inr zs" and same: "map num_val zs = map num_val (elements x)"
    and fl: "map to_float zs = map to_float (elements x)"
    by blast
  from same have lz: "length zs = length (elements x)" by (metis length_map)
  show ?thesis
  proof (cases "shape_of x = []")
    case True
    with len lz have "length zs = 1" by simp
    then obtain z where z: "zs = [z]" by (cases zs) auto
    have "set_cell col (Num x) = Inr (Num (Scalar (dtype_name ct) z))"
      unfolding col by (simp add: set_cell_def broadcast_def zs True z)
    moreover have "same_number x (Scalar (dtype_name ct) z)"
      using same True unfolding z by (simp add: same_number_def)
    moreover have "map to_float (elements (Scalar (dtype_name ct) z)) = map to_float (elements x)"
      using fl unfolding z by simp
    ultimately show ?thesis by blast
  next
    case False
    have "set_cell col (Num x) = Inr (Num (NdArray (dtype_name ct) (shape_of x) zs))"
      unfolding col using False by (simp add: set_cell_def broadcast_def zs)
    moreover have "same_number x (NdArray (dtype_name ct) (shape_of x) zs)"
      using same by (simp add: same_number_def)
    moreover have "map to_float (elements (NdArray (dtype_name ct) (shape_of x) zs)) =
        map to_float (elements x)"
      using fl by simp
    ultimately show ?thesis by blast
  qed
qed

lemma obtain_roundtrip:
  assumes "w_schemas w0 t = None" and "w_transforms w0 t = []"
      and "HDF5TableWriter_write E w0 t [c] = Inr w1"
      and "distinct (container_keys c)"
      and "distinct (map fst (c_meta c))"
      and "\<forall>name\<in>set (container_keys c). unit_key name \<notin> fst ` set (c_meta c)"
      and "\<forall>(name, fld)\<in>set (c_fields c). \<forall>u. field_unit fld = Some u \<longrightarrow> astropy_Unit E (Str u) = Inr u"
      and "(name, fld) \<in> set (c_fields c)" and "\<not> is_column_excluded w0 t name"
  obtains r' c' tab row v where
    "read_all E (HDF5TableReader (w_h5file (HDF5TableWriter_close w1)))
        (node_path (w_group w0) t) c0 = (r', [c'], None)"
    "map_of (f_nodes (w_h5file w1)) (node_path (w_group w0) t) = Some tab"
    "t_rows tab = [row]"
    "stripped E fld = Inr v"
    "map_of (t_description tab) name = column_for v"
    "map_of (t_attrs tab) (unit_key name) = map_option Str (field_unit fld)"
    "map_of (w_transforms w1 t) name = field_transform E fld"
    "map_of (r_transforms r' (node_path (w_group w0) t)) name =
       map_option (\<lambda>u x. tr_add_unit E x (Str u)) (field_unit fld)"
    "case column_for v of
       None \<Rightarrow> map_of row name = None \<and> container_getitem c' name = container_getitem c0 name
     | Some col \<Rightarrow>
         (\<exists>v' cell. written E fld = Inr v' \<and> set_cell col v' = Inr cell \<and>
            map_of row name = Some cell \<and>
            (name \<in> set (container_keys c0) \<longrightarrow>
               container_getitem c' name =
                 (case field_unit fld of
                    None \<Rightarrow> Inr cell
                  | Some u \<Rightarrow> tr_add_unit E cell (Str u))))"
proof -
  from roundtrip [OF assms(1-7), of c0] obtain r' c' tab row where
    run: "read_all E (HDF5TableReader (w_h5file (HDF5TableWriter_close w1)))
        (node_path (w_group w0) t) c0 = (r', [c'], None)" and
    look: "map_of (f_nodes (w_h5file w1)) (node_path (w_group w0) t) = Some tab" and
    rows: "t_rows tab = [row]" and
    kc: "container_keys c' = container_keys c0" and
    fields: "\<forall>name fld. (name, fld) \<in> set (c_fields c) \<and> \<not> is_column_excluded w0 t name \<longrightarrow>
         (\<exists>v. stripped E fld = Inr v \<and> map_of (t_description tab) name = column_for v \<and>
            map_of (t_attrs tab) (unit_key name) = map_option Str (field_unit fld) \<and>
            map_of (w_transforms w1 t) name = field_transform E fld \<and>
            map_of (r_transforms r' (node_path (w_group w0) t)) name =
              map_option (\<lambda>u x. tr_add_unit E x (Str u)) (field_unit fld) \<and>
            (case column_for v of
               None \<Rightarrow> map_of row name = None \<and> container_getitem c' name = container_getitem c0 name
             | Some col \<Rightarrow>
                 (\<exists>v' cell. written E fld = Inr v' \<and> set_cell col v' = Inr cell \<and>
                    map_of row name = Some cell \<and>
                    (name \<in> set (container_keys c0) \<longrightarrow>
                       container_getitem c' name =
                         (case field_unit fld of
                            None \<Rightarrow> Inr cell
                          | Some u \<Rightarrow> tr_add_unit E cell (Str u))))))"
    by (elim exE conjE) (rule that; assumption)
  have "(name, fld) \<in> set (c_fields c) \<and> \<not> is_column_excluded w0 t name"
    using assms(8,9) by simp
  from fields [rule_format, OF this] obtain v where
    "stripped E fld = Inr v"
    "map_of (t_description tab) name = column_for v"
    "map_of (t_attrs tab) (unit_key name) = map_option Str (field_unit fld)"
    "map_of (w_transforms w1 t) name = field_transform E fld"
    "map_of (r_transforms r' (node_path (w_group w0) t)) name =
       map_option (\<lambda>u x. tr_add_unit E x (Str u)) (field_unit fld)"
    "case column_for v of
       None \<Rightarrow> map_of row name = None \<and> container_getitem c' name = container_getitem c0 name
     | Some col \<Rightarrow>
         (\<exists>v' cell. written E fld = Inr v' \<and> set_cell col v' = Inr cell \<and>
            map_of row name = Some cell \<and>
            (name \<in> set (container_keys c0) \<longrightarrow>
               container_getitem c' name =
                 (case field_unit fld of
                    None \<Rightarrow> Inr cell
                  | Some u \<Rightarrow> tr_add_unit E cell (Str u))))"
    by (elim exE conjE) (rule that; assumption)
  with run look rows show ?thesis by (rule that)
qed

text \<open>The file with one length, evaluated.\<close>

lemma lengths_written:
  "\<exists>w1. HDF5TableWriter_write example_env (HDF5TableWriter ''g'') ''lengths'' [length_record 250] = Inr w1"
  by (simp add: writer_eval length_record_def example_env_def example_Unit_def)

lemma lengths_file_eq:
  "lengths_file =
    \<lparr>f_isopen = False, f_groups = [''g''],
     f_nodes =
       [(''/g/lengths'',
         \<lparr>t_title = ''Storage of Length'',
          t_description = [(''x'', \<lparr>col_type = Float64Col, col_shape = []\<rparr>)],
          t_attrs = [(''x_UNIT'', Str ''m''), (''CTAPIPE_VERSION'', Str ''0.6.1'')],
          t_rows = [[(''x'', Num (Scalar ''float64'' (F (5 / 2))))]]\<rparr>)]\<rparr>"
  by (simp add: lengths_file_def written_file_def writer_eval example_env_def example_Unit_def length_record_def
        HDF5TableWriter_close_def file_close_def)

lemma length_record_hyps:
  "w_schemas (HDF5TableWriter ''g'') ''lengths'' = None"
  "w_transforms (HDF5TableWriter ''g'') ''lengths'' = []"
  "distinct (container_keys (length_record 250))"
  "distinct (map fst (c_meta (length_record 250)))"
  "\<forall>name\<in>set (container_keys (length_record 250)).
      unit_key name \<notin> fst ` set (c_meta (length_record 250))"
  "\<forall>(name, fld)\<in>set (c_fields (length_record 250)).
      \<forall>u. field_unit fld = Some u \<longrightarrow> astropy_Unit example_env (Str u) = Inr u"
  "(''x'', \<lparr>f_value = Quantity (Scalar ''float64'' (F 250)) ''cm'', f_unit = Some ''m''\<rparr>)
      \<in> set (c_fields (length_record 250))"
  "\<not> is_column_excluded (HDF5TableWriter ''g'') ''lengths'' ''x''"
  "''x'' \<in> set (container_keys (length_record 0))"
  by (simp_all add: HDF5TableWriter_def container_keys_def length_record_def field_unit_def
        example_env_def example_Unit_def is_column_excluded_def)

subsection \<open>Integers as floats\<close>

text \<open>An integer of at most 53 bits is its own conversion to a 64-bit float.\<close>

lemma bit_length_le: "n < 2 ^ k \<Longrightarrow> bit_length n \<le> k"
proof (induction k arbitrary: n)
  case 0
  then show ?case by (simp add: bit_length.simps)
next
  case (Suc k)
  show ?case
  proof (cases "n = 0")
    case True
    then show ?thesis by (simp add: bit_length.simps)
  next
    case False
    from Suc.prems have "n div 2 < 2 ^ k" by simp
    from Suc.IH [OF this] False show ?thesis by (subst bit_length.simps) simp
  qed
qed

lemma bit_length_eq: "2 ^ k \<le> n \<Longrightarrow> n < 2 ^ Suc k \<Longrightarrow> bit_length n = Suc k"
proof (induction k arbitrary: n)
  case 0
  then have "n = 1" by simp
  then show ?case by (simp add: bit_length.simps [of "Suc 0"] bit_length.simps [of 0])
next
  case (Suc k)
  from Suc.prems have "2 ^ k \<le> n div 2" "n div 2 < 2 ^ Suc k" "n \<noteq> 0" by auto
  from Suc.IH [OF this(1,2)] this(3) show ?case by (subst bit_length.simps) simp
qed

lemma round_nat_small: "a < 2 ^ p \<Longrightarrow> round_nat p a = a"
  using bit_length_le [of a p] by (simp add: round_nat_def)

lemma exact_small: "\<bar>n\<bar> \<le> 2 ^ 53 \<Longrightarrow> exact (I n)"
proof (cases "\<bar>n\<bar> = 2 ^ 53")
  case True
  then have a: "nat \<bar>n\<bar> = 2 ^ 53" by simp
  have "bit_length (2 ^ 53) = 54" using bit_length_eq [of 53 "2 ^ 53"] by simp
  then have "round_nat 53 (2 ^ 53) = 2 ^ 53" by (simp add: round_nat_def Let_def)
  with a have "sgn n * int (round_nat 53 (nat \<bar>n\<bar>)) = sgn n * \<bar>n\<bar>"
    using True by simp
  then show ?thesis by (simp add: exact_def float64_of_int_def mult_sgn_abs)
next
  case False
  assume "\<bar>n\<bar> \<le> 2 ^ 53"
  with False have "nat \<bar>n\<bar> < 2 ^ 53" by simp
  from round_nat_small [OF this] have "sgn n * int (round_nat 53 (nat \<bar>n\<bar>)) = sgn n * \<bar>n\<bar>"
    by simp
  then show ?thesis by (simp add: exact_def float64_of_int_def mult_sgn_abs)
qed

lemma float64_of_int_rounds: "float64_of_int (2 ^ 53 + 1) = 2 ^ 53"
proof -
  have "bit_length (2 ^ 53 + 1) = 54" using bit_length_eq [of 53 "2 ^ 53 + 1"] by simp
  then have "round_nat 53 (2 ^ 53 + 1) = 2 ^ 53" by (simp add: round_nat_def Let_def)
  moreover have "nat \<bar>2 ^ 53 + 1 :: int\<bar> = 2 ^ 53 + 1" by simp
  ultimately show ?thesis by (simp add: float64_of_int_def)
qed

text \<open>
  An integer beyond 53 bits does not survive the way into a quantity: the reader makes a
  quantity of floats of the number it has read.
\<close>

lemma integer_quantity_rounded:
  "tr_add_unit example_env (Num (Scalar ''int64'' (I (2 ^ 53 + 1)))) (Str ''m'') =
     Inr (Quantity (Scalar ''float64'' (F (2 ^ 53))) ''m'')"
proof -
  have "tr_add_unit example_env (Num (Scalar ''int64'' (I (2 ^ 53 + 1)))) (Str ''m'') =
     Inr (Quantity (Scalar ''float64'' (F (float64_of_int (2 ^ 53 + 1)))) ''m'')"
    by (simp add: tr_add_unit_def example_env_def example_Unit_def float_name_def
          del: power_numeral)
  then show ?thesis by (simp only: float64_of_int_rounds)
qed

lemma scale_payload_content:
  "shape_of (scale_payload k x) = shape_of x"
  "map num_val (elements (scale_payload k x)) = map (\<lambda>c. to_float c * k) (elements x)"
  by (cases x; simp)+

lemma same_number_unit:
  assumes "same_number x x'" and "map to_float (elements x') = map to_float (elements x)"
      and "list_all exact (elements x)"
  shows "same_number x (scale_payload 1 x')"
proof -
  have "map (\<lambda>c. to_float c * 1) (elements x') = map to_float (elements x')" by simp
  also have "\<dots> = map to_float (elements x)" by (rule assms(2))
  also have "\<dots> = map num_val (elements x)"
    using assms(3) by (simp add: list_all_iff exact_def)
  finally show ?thesis
    using assms(1) by (simp add: same_number_def scale_payload_content)
qed

subsection \<open>The round trip of a field\<close>

text \<open>
  C1 (amended). One record is written to a table that has no schema yet, by a writer for
  which no column transform has been registered for this table, and the write returns;
  the file is closed and a loop over \<open>read\<close> of a fresh reader reads the table into a
  record that has the field. The record is a mapping (field names pairwise different, as
  the keys of its metadata are), no key of its metadata is \<open><field>_UNIT\<close> for one of
  its fields, and astropy makes of the unit strings of its quantities the units they
  name. For a field that is not excluded and whose normalised value \<open>v\<close> is storable (a
  well-formed number with a column type, or a quantity of such a number whose integers
  are exact as 64-bit floats): the reader yields exactly one record, without exception,
  and the field holds the same value as \<open>v\<close>. For a scalar, a boolean or an array \<open>v\<close> is
  the value written; for a quantity without required unit \<open>v\<close> is the quantity written;
  for a quantity with a required unit \<open>v\<close> is the quantity converted to the required unit,
  so that the number and the unit string read back are those of the required unit.
\<close>

theorem write_read_roundtrip:
  assumes "w_schemas w0 t = None" and "w_transforms w0 t = []"
      and "HDF5TableWriter_write E w0 t [c] = Inr w1"
      and "distinct (container_keys c)"
      and "distinct (map fst (c_meta c))"
      and "\<forall>name\<in>set (container_keys c). unit_key name \<notin> fst ` set (c_meta c)"
      and "\<forall>(name, fld)\<in>set (c_fields c). \<forall>u. field_unit fld = Some u \<longrightarrow> astropy_Unit E (Str u) = Inr u"
      and "(name, fld) \<in> set (c_fields c)" and "\<not> is_column_excluded w0 t name"
      and "name \<in> set (container_keys c0)"
      and "normalised E fld = Inr v" and "storable v"
  shows "\<exists>r' c' v'.
      generator_run E (HDF5TableReader (w_h5file (HDF5TableWriter_close w1)))
        (HDF5TableReader_read (node_path (w_group w0) t) c0) = (r', [c'], None) \<and>
      container_getitem c' name = Inr v' \<and> same_value v v'"
proof -
  from obtain_roundtrip [OF assms(1-9), of c0] obtain r' c' tab row sv where
    run: "read_all E (HDF5TableReader (w_h5file (HDF5TableWriter_close w1)))
        (node_path (w_group w0) t) c0 = (r', [c'], None)" and
    "map_of (f_nodes (w_h5file w1)) (node_path (w_group w0) t) = Some tab" and
    "t_rows tab = [row]" and
    sv: "stripped E fld = Inr sv" and
    "map_of (t_description tab) name = column_for sv" and
    "map_of (t_attrs tab) (unit_key name) = map_option Str (field_unit fld)" and
    "map_of (w_transforms w1 t) name = field_transform E fld" and
    "map_of (r_transforms r' (node_path (w_group w0) t)) name =
       map_option (\<lambda>u x. tr_add_unit E x (Str u)) (field_unit fld)" and
    cs: "case column_for sv of
               None \<Rightarrow> map_of row name = None \<and> container_getitem c' name = container_getitem c0 name
             | Some col \<Rightarrow>
                 (\<exists>v' cell. written E fld = Inr v' \<and> set_cell col v' = Inr cell \<and>
                    map_of row name = Some cell \<and>
                    (name \<in> set (container_keys c0) \<longrightarrow>
                       container_getitem c' name =
                         (case field_unit fld of
                            None \<Rightarrow> Inr cell
                          | Some u \<Rightarrow> tr_add_unit E cell (Str u))))"
    by blast
  have "\<exists>v'. container_getitem c' name = Inr v' \<and> same_value v v'"
  proof (cases "f_value fld")
    case (Num x)
    with assms(11) have v: "v = Num x" by (simp add: normalised_def)
    with assms(12) have wf: "well_formed x" and col: "column_for (Num x) \<noteq> None" by simp_all
    from Num sv have s: "sv = Num x" by (simp add: stripped_def)
    from col obtain cl where cl: "column_for (Num x) = Some cl" by auto
    from Num have fu: "field_unit fld = None" and wr: "written E fld = Inr (Num x)"
      by (simp_all add: field_unit_def written_def field_transform_def)
    from cs cl wr fu assms(10) obtain cell where
      c: "set_cell cl (Num x) = Inr cell" and g: "container_getitem c' name = Inr cell"
      unfolding s by auto
    from set_cell_same [OF cl wf] c obtain x' where "cell = Num x'" "same_number x x'"
      by auto
    with g show ?thesis unfolding v by simp
  next
    case (Quantity p u)
    let ?u = "case f_unit fld of Some req_unit \<Rightarrow> req_unit | None \<Rightarrow> u"
    from stripped_quantity [OF Quantity sv] obtain x where
      s: "sv = Num x" and
      conv: "case f_unit fld of
               Some req_unit \<Rightarrow> quantity_to E (Quantity p u) req_unit = Inr (Quantity x req_unit)
             | None \<Rightarrow> x = p"
      by blast
    have v: "v = Quantity x ?u"
      using assms(11) conv Quantity by (cases "f_unit fld") (simp_all add: normalised_def)
    with assms(12) have wf: "well_formed x" and col: "column_for (Num x) \<noteq> None"
      and ex: "list_all exact (elements x)" by simp_all
    from col obtain cl where cl: "column_for (Num x) = Some cl" by auto
    from Quantity have fu: "field_unit fld = Some ?u" by (simp add: field_unit_def)
    have wr: "written E fld = Inr (Num x)"
      using sv Quantity unfolding s
      by (cases "f_unit fld") (simp_all add: written_def field_transform_def stripped_def quantity_value_def)
    from cs cl wr fu assms(10) obtain cell where
      c: "set_cell cl (Num x) = Inr cell" and
      g: "container_getitem c' name = tr_add_unit E cell (Str ?u)"
      unfolding s by auto
    from set_cell_same [OF cl wf] c obtain x' where
      x': "cell = Num x'" "same_number x x'"
          "map to_float (elements x') = map to_float (elements x)"
      by auto
    from assms(7,8) fu have "astropy_Unit E (Str ?u) = Inr ?u" by blast
    from tr_add_unit_Num [OF this] g x'(1)
    have "container_getitem c' name = Inr (Quantity (scale_payload 1 x') ?u)" by simp
    with same_number_unit [OF x'(2,3) ex] show ?thesis unfolding v by simp
  next
    case (Str s)
    with assms(11,12) show ?thesis by (auto simp: normalised_def)
  next
    case NoneVal
    with assms(11,12) show ?thesis by (auto simp: normalised_def)
  next
    case (Time m)
    with assms(11,12) show ?thesis by (auto simp: normalised_def)
  qed
  with run show ?thesis unfolding generator_run_read by blast
qed

text \<open>
  C1 as stated fails: 250 cm in a field that requires metres reads back as 2.5 m, which has
  neither the number nor the unit string of the value written.
\<close>

theorem quantity_reads_back_converted:
  "container_getitem (length_record 250) ''x'' = Inr (Quantity (Scalar ''float64'' (F 250)) ''cm'') \<and>
   read_back example_env lengths_file ''/g/lengths'' (length_record 0) ''x'' =
     [Inr (Quantity (Scalar ''float64'' (F (5 / 2))) ''m'')] \<and>
   \<not> same_value (Quantity (Scalar ''float64'' (F 250)) ''cm'')
                 (Quantity (Scalar ''float64'' (F (5 / 2))) ''m'')"
  by (simp add: read_back_def lengths_file_eq reader_eval length_record_def example_env_def
        example_Unit_def container_getitem_def same_number_def)

theorem write_read_roundtrip_witness:
  "\<exists>r' c' v'.
     generator_run example_env (HDF5TableReader lengths_file)
       (HDF5TableReader_read ''/g/lengths'' (length_record 0)) = (r', [c'], None) \<and>
     container_getitem c' ''x'' = Inr v' \<and>
     same_value (Quantity (Scalar ''float64'' (F (5 / 2))) ''m'') v'"
proof -
  from lengths_written obtain w1 where
    w1: "HDF5TableWriter_write example_env (HDF5TableWriter ''g'') ''lengths'' [length_record 250] = Inr w1"
    by blast
  have lf: "lengths_file = w_h5file (HDF5TableWriter_close w1)"
    by (simp add: lengths_file_def written_file_def w1)
  have p: "node_path (w_group (HDF5TableWriter ''g'')) ''lengths'' = ''/g/lengths''"
    by (simp add: node_path_def HDF5TableWriter_def)
  have n: "normalised example_env
             \<lparr>f_value = Quantity (Scalar ''float64'' (F 250)) ''cm'', f_unit = Some ''m''\<rparr> =
           Inr (Quantity (Scalar ''float64'' (F (5 / 2))) ''m'')"
    by (simp add: normalised_def quantity_to_def example_env_def float_name_def)
  have st: "storable (Quantity (Scalar ''float64'' (F (5 / 2))) ''m'')"
    by (simp add: column_for_def PYTABLES_TYPE_MAP_def exact_def)
  from write_read_roundtrip [OF length_record_hyps(1,2) w1 length_record_hyps(3-9) n st]
  show ?thesis unfolding lf p .
qed

subsection \<open>The unit in the header\<close>

lemma cast_all_floats:
  "ct = Float64Col \<or> ct = Float32Col \<Longrightarrow> cast_all ct (map F ys) = Inr (map F ys)"
  by (induction ys) (auto simp: float_cell_def)

lemma float_name_column:
  "\<exists>ct. map_of PYTABLES_TYPE_MAP (float_name n) = Some ct \<and> (ct = Float64Col \<or> ct = Float32Col)"
  by (simp add: float_name_def PYTABLES_TYPE_MAP_def)

lemma set_cell_scaled:
  assumes "column_for (Num (scale_payload k p)) = Some col"
      and "set_cell col (Num (scale_payload k p)) = Inr cell"
  shows "\<exists>x'. cell = Num x' \<and> shape_of x' = shape_of p \<and>
           elements x' = map (\<lambda>c. F (to_float c * k)) (elements p)"
proof (cases p)
  case (Scalar n c)
  from float_name_column [of n] obtain ct where
    ct: "map_of PYTABLES_TYPE_MAP (float_name n) = Some ct" "ct = Float64Col \<or> ct = Float32Col"
    by blast
  with assms(1) Scalar have col: "col = \<lparr>col_type = ct, col_shape = []\<rparr>"
    by (simp add: column_for_def)
  from cast_all_floats [OF ct(2), of "[to_float c * k]"]
  have "cast_all ct [F (to_float c * k)] = Inr [F (to_float c * k)]" by simp
  with assms(2) Scalar show ?thesis
    unfolding col by (auto simp: set_cell_def broadcast_def)
next
  case (NdArray dt sh xs)
  let ?ys = "map (\<lambda>c. F (to_float c * k)) xs"
  from float_name_column [of dt] obtain ct where
    ct: "map_of PYTABLES_TYPE_MAP (float_name dt) = Some ct" "ct = Float64Col \<or> ct = Float32Col"
    by blast
  with assms(1) NdArray have col: "col = \<lparr>col_type = ct, col_shape = sh\<rparr>"
    by (simp add: column_for_def)
  from cast_all_floats [OF ct(2), of "map (\<lambda>c. to_float c * k) xs"]
  have ca: "cast_all ct ?ys = Inr ?ys" by (simp add: comp_def)
  show ?thesis
  proof (cases "sh = []")
    case True
    from assms(2) obtain z where "?ys = [z]" "cell = Num (Scalar (dtype_name ct) z)"
      unfolding col NdArray True
      by (auto simp: set_cell_def broadcast_def ca split: list.splits)
    then show ?thesis unfolding NdArray True by simp
  next
    case False
    with assms(2) have "cell = Num (NdArray (dtype_name ct) sh ?ys)"
      unfolding col NdArray by (auto simp: set_cell_def broadcast_def ca)
    then show ?thesis unfolding NdArray by simp
  qed
qed

lemma scale_payload_one_floats:
  assumes "elements x = map F ys"
  shows "shape_of (scale_payload 1 x) = shape_of x" and "elements (scale_payload 1 x) = elements x"
proof -
  show "shape_of (scale_payload 1 x) = shape_of x" by (cases x) simp_all
  have "map (\<lambda>c. F (to_float c * 1)) (map F ys) = map F ys" by (induction ys) simp_all
  then have m: "map (\<lambda>c. F (to_float c * 1)) (elements x) = elements x"
    unfolding assms .
  have "elements (scale_payload 1 x) = map (\<lambda>c. F (to_float c * 1)) (elements x)"
    by (cases x) simp_all
  with m show "elements (scale_payload 1 x) = elements x" by simp
qed

text \<open>
  C6 (amended). A quantity in \<open>cm\<close>, a scalar or an array of any number type, in a field
  that requires \<open>m\<close>, where astropy has a centimetre as the hundredth of a metre. The
  record is written and read back under the conditions of C1: the first write to the
  table, which returns, by a writer without column transform for this table; a record
  that is a mapping, without metadata key \<open><field>_UNIT\<close> for one of its fields, whose
  unit strings astropy knows; the field is not excluded and the record read into has it.
  Then the header attribute \<open><field>_UNIT\<close> is \<open>m\<close>; the number stored has the shape of
  the number written and its elements are those written, as floats, divided by 100; the
  field read back is a quantity with unit \<open>m\<close> whose number has the shape and the
  elements of the number stored.
\<close>

theorem required_unit_roundtrip:
  assumes "w_schemas w0 t = None" and "w_transforms w0 t = []"
      and "HDF5TableWriter_write E w0 t [c] = Inr w1"
      and "distinct (container_keys c)"
      and "distinct (map fst (c_meta c))"
      and "\<forall>name\<in>set (container_keys c). unit_key name \<notin> fst ` set (c_meta c)"
      and "\<forall>(name, fld)\<in>set (c_fields c). \<forall>u. field_unit fld = Some u \<longrightarrow> astropy_Unit E (Str u) = Inr u"
      and "(name, fld) \<in> set (c_fields c)" and "\<not> is_column_excluded w0 t name"
      and "name \<in> set (container_keys c0)"
      and "f_value fld = Quantity p ''cm''" and "f_unit fld = Some ''m''"
      and "astropy_units E ''cm'' = Some (d, s / 100)" and "astropy_units E ''m'' = Some (d, s)"
      and "s \<noteq> 0"
  shows "\<exists>r' c' tab row x' x''.
      generator_run E (HDF5TableReader (w_h5file (HDF5TableWriter_close w1)))
        (HDF5TableReader_read (node_path (w_group w0) t) c0) = (r', [c'], None) \<and>
      map_of (f_nodes (w_h5file w1)) (node_path (w_group w0) t) = Some tab \<and> t_rows tab = [row] \<and>
      map_of (t_attrs tab) (name @ ''_UNIT'') = Some (Str ''m'') \<and>
      map_of row name = Some (Num x') \<and> shape_of x' = shape_of p \<and>
      elements x' = map (\<lambda>a. F (to_float a / 100)) (elements p) \<and>
      container_getitem c' name = Inr (Quantity x'' ''m'') \<and>
      shape_of x'' = shape_of x' \<and> elements x'' = elements x'"
proof -
  let ?raw = "scale_payload (1 / 100) p"
  have conv: "quantity_to E (Quantity p ''cm'') ''m'' = Inr (Quantity ?raw ''m'')"
    using assms(13,14,15) by (simp add: quantity_to_def)
  from assms(11,12) conv have
    s: "stripped E fld = Inr (Num ?raw)" and fu: "field_unit fld = Some ''m''" and
    wr: "written E fld = Inr (Num ?raw)"
    by (simp_all add: stripped_def field_unit_def field_transform_def written_def
          tr_convert_and_strip_unit_def quantity_value_def)
  from assms(7,8) fu have known: "astropy_Unit E (Str ''m'') = Inr ''m''" by blast
  from obtain_roundtrip [OF assms(1-9), of c0] obtain r' c' tab row v where
    f: "read_all E (HDF5TableReader (w_h5file (HDF5TableWriter_close w1)))
        (node_path (w_group w0) t) c0 = (r', [c'], None)"
    "map_of (f_nodes (w_h5file w1)) (node_path (w_group w0) t) = Some tab"
    "t_rows tab = [row]"
    "stripped E fld = Inr v"
    "map_of (t_description tab) name = column_for v"
    "map_of (t_attrs tab) (unit_key name) = map_option Str (field_unit fld)"
    "map_of (w_transforms w1 t) name = field_transform E fld"
    "map_of (r_transforms r' (node_path (w_group w0) t)) name =
       map_option (\<lambda>u x. tr_add_unit E x (Str u)) (field_unit fld)"
    "case column_for v of
       None \<Rightarrow> map_of row name = None \<and> container_getitem c' name = container_getitem c0 name
     | Some col \<Rightarrow>
         (\<exists>v' cell. written E fld = Inr v' \<and> set_cell col v' = Inr cell \<and>
            map_of row name = Some cell \<and>
            (name \<in> set (container_keys c0) \<longrightarrow>
               container_getitem c' name =
                 (case field_unit fld of
                    None \<Rightarrow> Inr cell
                  | Some u \<Rightarrow> tr_add_unit E cell (Str u))))"
    by blast
  from f(4) s have v: "v = Num ?raw" by simp
  have "\<exists>col. column_for (Num ?raw) = Some col"
  proof (cases p)
    case (Scalar n a)
    from float_name_column [of n] show ?thesis
      unfolding Scalar by (auto simp: column_for_def)
  next
    case (NdArray dt sh xs)
    from float_name_column [of dt] show ?thesis
      unfolding NdArray by (auto simp: column_for_def)
  qed
  then obtain col where cf: "column_for (Num ?raw) = Some col" by blast
  from f(9) assms(10) obtain cell where
    sc: "set_cell col (Num ?raw) = Inr cell" and
    st: "map_of row name = Some cell" and
    rd: "container_getitem c' name = tr_add_unit E cell (Str ''m'')"
    unfolding v cf by (auto simp: wr fu)
  from set_cell_scaled [OF cf sc] obtain x' where
    x': "cell = Num x'" "shape_of x' = shape_of p"
        "elements x' = map (\<lambda>c. F (to_float c * (1 / 100))) (elements p)"
    by blast
  from x'(3) have fl: "elements x' = map F (map (\<lambda>c. to_float c * (1 / 100)) (elements p))"
    by (simp add: comp_def)
  from rd x'(1) tr_add_unit_Num [OF known]
  have g: "container_getitem c' name = Inr (Quantity (scale_payload 1 x') ''m'')" by simp
  have e: "elements x' = map (\<lambda>a. F (to_float a / 100)) (elements p)"
    using x'(3) by simp
  from f(6) have h: "map_of (t_attrs tab) (name @ ''_UNIT'') = Some (Str ''m'')"
    unfolding fu by (simp add: unit_key_def)
  from f(1) have run: "generator_run E (HDF5TableReader (w_h5file (HDF5TableWriter_close w1)))
        (HDF5TableReader_read (node_path (w_group w0) t) c0) = (r', [c'], None)"
    by (simp add: generator_run_read)
  note one = scale_payload_one_floats [OF fl]
  have "map_of row name = Some (Num x') \<and> shape_of x' = shape_of p \<and>
      elements x' = map (\<lambda>a. F (to_float a / 100)) (elements p) \<and>
      container_getitem c' name = Inr (Quantity (scale_payload 1 x') ''m'') \<and>
      shape_of (scale_payload 1 x') = shape_of x' \<and>
      elements (scale_payload 1 x') = elements x'"
    using st x'(1,2) e g one by simp
  with run f(2,3) h show ?thesis by blast
qed

text \<open>
  C6 as stated fails: for 250 cm the stored number is 2.5 and the field read back is 2.5 m,
  not 100 times the stored number.
\<close>

theorem reconstructed_is_raw_number:
  "header lengths_file ''/g/lengths'' ''x_UNIT'' = Some (Str ''m'') \<and>
   stored lengths_file ''/g/lengths'' ''x'' = [Some (Num (Scalar ''float64'' (F (5 / 2))))] \<and>
   read_back example_env lengths_file ''/g/lengths'' (length_record 0) ''x'' =
     [Inr (Quantity (Scalar ''float64'' (F (5 / 2))) ''m'')] \<and>
   Quantity (Scalar ''float64'' (F (5 / 2))) ''m'' \<noteq> Quantity (Scalar ''float64'' (F (100 * (5 / 2)))) ''m''"
  by (simp add: read_back_def header_def stored_def lengths_file_eq reader_eval length_record_def
        example_env_def example_Unit_def container_getitem_def)

theorem required_unit_roundtrip_witness:
  "\<exists>r' c' tab row x' x''.
     generator_run example_env (HDF5TableReader lengths_file)
       (HDF5TableReader_read ''/g/lengths'' (length_record 0)) = (r', [c'], None) \<and>
     map_of (f_nodes lengths_file) ''/g/lengths'' = Some tab \<and> t_rows tab = [row] \<and>
     map_of (t_attrs tab) ''x_UNIT'' = Some (Str ''m'') \<and>
     map_of row ''x'' = Some (Num x') \<and> shape_of x' = [] \<and> elements x' = [F (5 / 2)] \<and>
     container_getitem c' ''x'' = Inr (Quantity x'' ''m'') \<and>
     shape_of x'' = [] \<and> elements x'' = [F (5 / 2)]"
proof -
  from lengths_written obtain w1 where
    w1: "HDF5TableWriter_write example_env (HDF5TableWriter ''g'') ''lengths'' [length_record 250] = Inr w1"
    by blast
  have lf: "lengths_file = w_h5file (HDF5TableWriter_close w1)"
    by (simp add: lengths_file_def written_file_def w1)
  have nodes: "f_nodes lengths_file = f_nodes (w_h5file w1)"
    unfolding lf by (simp add: HDF5TableWriter_close_def file_close_def)
  have p: "node_path (w_group (HDF5TableWriter ''g'')) ''lengths'' = ''/g/lengths''"
    by (simp add: node_path_def HDF5TableWriter_def)
  have cm: "astropy_units example_env ''cm'' = Some (''length'', 1 / 100)"
    and m: "astropy_units example_env ''m'' = Some (''length'', 1)"
    by (simp_all add: example_env_def)
  from required_unit_roundtrip [OF length_record_hyps(1,2) w1 length_record_hyps(3-9) _ _ cm m,
    of "Scalar ''float64'' (F 250)"]
  obtain r' c' tab row x' x'' where
    "generator_run example_env (HDF5TableReader (w_h5file (HDF5TableWriter_close w1)))
        (HDF5TableReader_read ''/g/lengths'' (length_record 0)) = (r', [c'], None)"
    "map_of (f_nodes (w_h5file w1)) ''/g/lengths'' = Some tab" "t_rows tab = [row]"
    "map_of (t_attrs tab) ''x_UNIT'' = Some (Str ''m'')"
    "map_of row ''x'' = Some (Num x')" "shape_of x' = []" "elements x' = [F (5 / 2)]"
    "container_getitem c' ''x'' = Inr (Quantity x'' ''m'')"
    "shape_of x'' = shape_of x'" "elements x'' = elements x'"
    unfolding p by auto
  then show ?thesis unfolding lf [symmetric] nodes [symmetric] by auto
qed

subsection \<open>Timestamps\<close>

text \<open>
  C9 (amended). A timestamp in a field, written and read back under the conditions of C1:
  the first write to the table, which returns, by a writer without column transform for
  this table; a record that is a mapping, without metadata key \<open><field>_UNIT\<close> for one
  of its fields, whose unit strings astropy knows; the field is not excluded and the
  record read into has it. Then the writer has registered \<open>tr_time_to_float\<close> for the
  column, the column is a scalar 64-bit float column, the reader has no transform for it,
  and the field read back is the number stored, the \<open>mjd\<close> of the timestamp.
\<close>

theorem timestamp_read_as_number:
  assumes "w_schemas w0 t = None" and "w_transforms w0 t = []"
      and "HDF5TableWriter_write E w0 t [c] = Inr w1"
      and "distinct (container_keys c)"
      and "distinct (map fst (c_meta c))"
      and "\<forall>name\<in>set (container_keys c). unit_key name \<notin> fst ` set (c_meta c)"
      and "\<forall>(name, fld)\<in>set (c_fields c). \<forall>u. field_unit fld = Some u \<longrightarrow> astropy_Unit E (Str u) = Inr u"
      and "(name, fld) \<in> set (c_fields c)" and "\<not> is_column_excluded w0 t name"
      and "name \<in> set (container_keys c0)"
      and "f_value fld = Time m"
  shows "\<exists>r' c' tab row.
      generator_run E (HDF5TableReader (w_h5file (HDF5TableWriter_close w1)))
        (HDF5TableReader_read (node_path (w_group w0) t) c0) = (r', [c'], None) \<and>
      map_of (f_nodes (w_h5file w1)) (node_path (w_group w0) t) = Some tab \<and> t_rows tab = [row] \<and>
      map_of (w_transforms w1 t) name = Some tr_time_to_float \<and>
      map_of (t_description tab) name = Some \<lparr>col_type = Float64Col, col_shape = []\<rparr> \<and>
      map_of (r_transforms r' (node_path (w_group w0) t)) name = None \<and>
      map_of row name = Some (Num (Scalar ''float64'' (F m))) \<and>
      container_getitem c' name = Inr (Num (Scalar ''float64'' (F m)))"
proof -
  from assms(11) have
    s: "stripped E fld = Inr (Time m)" and fu: "field_unit fld = None" and
    ft: "field_transform E fld = Some tr_time_to_float" and
    wr: "written E fld = Inr (Num (Scalar ''float64'' (F m)))"
    by (simp_all add: stripped_def field_unit_def field_transform_def written_def tr_time_to_float_def)
  have cf: "column_for (Time m) = Some \<lparr>col_type = Float64Col, col_shape = []\<rparr>"
    by (simp add: column_for_def)
  have sc: "set_cell \<lparr>col_type = Float64Col, col_shape = []\<rparr> (Num (Scalar ''float64'' (F m))) =
              Inr (Num (Scalar ''float64'' (F m)))"
    by (simp add: set_cell_def broadcast_def float_cell_def)
  from obtain_roundtrip [OF assms(1-9), of c0] obtain r' c' tab row v where
    f: "read_all E (HDF5TableReader (w_h5file (HDF5TableWriter_close w1)))
        (node_path (w_group w0) t) c0 = (r', [c'], None)"
    "map_of (f_nodes (w_h5file w1)) (node_path (w_group w0) t) = Some tab"
    "t_rows tab = [row]"
    "stripped E fld = Inr v"
    "map_of (t_description tab) name = column_for v"
    "map_of (t_attrs tab) (unit_key name) = map_option Str (field_unit fld)"
    "map_of (w_transforms w1 t) name = field_transform E fld"
    "map_of (r_transforms r' (node_path (w_group w0) t)) name =
       map_option (\<lambda>u x. tr_add_unit E x (Str u)) (field_unit fld)"
    "case column_for v of
       None \<Rightarrow> map_of row name = None \<and> container_getitem c' name = container_getitem c0 name
     | Some col \<Rightarrow>
         (\<exists>v' cell. written E fld = Inr v' \<and> set_cell col v' = Inr cell \<and>
            map_of row name = Some cell \<and>
            (name \<in> set (container_keys c0) \<longrightarrow>
               container_getitem c' name =
                 (case field_unit fld of
                    None \<Rightarrow> Inr cell
                  | Some u \<Rightarrow> tr_add_unit E cell (Str u))))"
    by blast
  from f(4) s have v: "v = Time m" by simp
  from f(9) assms(10) have
    "map_of row name = Some (Num (Scalar ''float64'' (F m))) \<and>
     container_getitem c' name = Inr (Num (Scalar ''float64'' (F m)))"
    unfolding v cf by (auto simp: wr sc fu)
  with f(1,2,3,5,7,8) show ?thesis
    unfolding v cf ft fu generator_run_read by auto
qed

lemma labelled_file_eq:
  "labelled_file =
    \<lparr>f_isopen = False, f_groups = [''g''],
     f_nodes =
       [(''/g/times'',
         \<lparr>t_title = ''Storage of Timed'',
          t_description = [(''t'', \<lparr>col_type = Float64Col, col_shape = []\<rparr>)],
          t_attrs = [(''CTAPIPE_VERSION'', Str ''0.6.1''), (''t_UNIT'', Str ''m'')],
          t_rows = [[(''t'', Num (Scalar ''float64'' (F 58000)))]]\<rparr>)]\<rparr>"
  by (simp add: labelled_file_def labelled_record_def written_file_def writer_eval
        example_env_def timed_record_def HDF5TableWriter_close_def file_close_def)

text \<open>
  C9 as stated fails: the metadata of the record has the key \<open>t_UNIT\<close>, which the writer
  copies into the header. The reader takes it for the unit of the column \<open>t\<close> and yields
  a quantity, not the number stored.
\<close>

theorem timestamp_read_as_quantity:
  "container_getitem labelled_record ''t'' = Inr (Time 58000) \<and>
   c_meta labelled_record = [(''t_UNIT'', Str ''m'')] \<and>
   stored labelled_file ''/g/times'' ''t'' = [Some (Num (Scalar ''float64'' (F 58000)))] \<and>
   read_back example_env labelled_file ''/g/times'' (timed_record 0) ''t'' =
     [Inr (Quantity (Scalar ''float64'' (F 58000)) ''m'')]"
  by (simp add: read_back_def stored_def labelled_file_eq reader_eval labelled_record_def
        timed_record_def example_env_def example_Unit_def container_getitem_def)

lemma times_written:
  "\<exists>w1. HDF5TableWriter_write example_env (HDF5TableWriter ''g'') ''times'' [timed_record 58000] = Inr w1"
  by (simp add: writer_eval timed_record_def example_env_def example_Unit_def)

theorem timestamp_read_as_number_witness:
  "\<exists>r' c' tab row.
     generator_run example_env (HDF5TableReader times_file)
       (HDF5TableReader_read ''/g/times'' (timed_record 0)) = (r', [c'], None) \<and>
     map_of (f_nodes times_file) ''/g/times'' = Some tab \<and> t_rows tab = [row] \<and>
     map_of (t_description tab) ''t'' = Some \<lparr>col_type = Float64Col, col_shape = []\<rparr> \<and>
     map_of (r_transforms r' ''/g/times'') ''t'' = None \<and>
     map_of row ''t'' = Some (Num (Scalar ''float64'' (F 58000))) \<and>
     container_getitem c' ''t'' = Inr (Num (Scalar ''float64'' (F 58000)))"
proof -
  from times_written obtain w1 where
    w1: "HDF5TableWriter_write example_env (HDF5TableWriter ''g'') ''times'' [timed_record 58000] = Inr w1"
    by blast
  have tf: "times_file = w_h5file (HDF5TableWriter_close w1)"
    by (simp add: times_file_def written_file_def w1)
  have nodes: "f_nodes times_file = f_nodes (w_h5file w1)"
    unfolding tf by (simp add: HDF5TableWriter_close_def file_close_def)
  have p: "node_path (w_group (HDF5TableWriter ''g'')) ''times'' = ''/g/times''"
    by (simp add: node_path_def HDF5TableWriter_def)
  have h: "w_schemas (HDF5TableWriter ''g'') ''times'' = None"
    "w_transforms (HDF5TableWriter ''g'') ''times'' = []"
    "distinct (container_keys (timed_record 58000))"
    "distinct (map fst (c_meta (timed_record 58000)))"
    "\<forall>name\<in>set (container_keys (timed_record 58000)).
        unit_key name \<notin> fst ` set (c_meta (timed_record 58000))"
    "\<forall>(name, fld)\<in>set (c_fields (timed_record 58000)).
        \<forall>u. field_unit fld = Some u \<longrightarrow> astropy_Unit example_env (Str u) = Inr u"
    "(''t'', \<lparr>f_value = Time 58000, f_unit = None\<rparr>) \<in> set (c_fields (timed_record 58000))"
    "\<not> is_column_excluded (HDF5TableWriter ''g'') ''times'' ''t''"
    "''t'' \<in> set (container_keys (timed_record 0))"
    by (simp_all add: HDF5TableWriter_def container_keys_def timed_record_def field_unit_def
          is_column_excluded_def)
  from timestamp_read_as_number [OF h(1,2) w1 h(3-9), of 58000]
  show ?thesis unfolding tf [symmetric] p nodes [symmetric] by simp blast
qed

end
